theory Spec2Isabelle
  imports Main "HOL-Library.Char_ord" "HOL-Library.List_Lexorder" "HOL-Library.Multiset"
begin

section \<open>Session lifecycle of the MCP bridge (lib/server.js)\<close>

text \<open>
  The module keeps one process-wide registry \<open>clients\<close> (a JavaScript \<open>Map\<close> from a
  client id to an entry) and a handful of asynchronous HTTP handlers working on it. The
  embedding passes the registry around explicitly, inside a record \<open>world\<close> that also
  holds what the handlers do to the outside: the calls made on SDK objects, in order. A
  handler whose run ends the Node process has no result: \<open>None\<close>.

  What the SDK objects answer is not decided by this module, so it is a parameter of every
  function: a record \<open>environment\<close> that tells, for each client object, how its
  \<open>connect\<close> and \<open>close\<close> promises settle. Console output is left out.
\<close>

subsection \<open>Configurations and their canonical text\<close>

text \<open>
  A server configuration is the JSON object found under \<open>mcpServers[id]\<close>. The module
  reads three properties, \<open>command\<close>, \<open>args\<close> and \<open>env\<close>, each of which may be
  missing; \<open>env\<close> is an object, kept as the list of its properties in insertion order.
  Properties are typed as the handlers use them: a string, an array of strings, an object
  of strings. Further properties of the object, which only the comparison of two
  configurations would see, are left out.
\<close>

record config =
  command :: "string option"
  args :: "string list option"
  env :: "(string \<times> string) list option"

datatype json = JString string | JArray "json list" | JObject "(string \<times> json) list"

definition property :: "string \<Rightarrow> 'a option \<Rightarrow> ('a \<Rightarrow> json) \<Rightarrow> (string \<times> json) list" where
  "property k v f = (case v of None \<Rightarrow> [] | Some x \<Rightarrow> [(k, f x)])"

definition config_json :: "config \<Rightarrow> json" where
  "config_json c =
     JObject (property ''command'' (command c) JString
            @ property ''args'' (args c) (\<lambda>xs. JArray (map JString xs))
            @ property ''env'' (env c) (\<lambda>kvs. JObject (map (\<lambda>(k, v). (k, JString v)) kvs)))"

text \<open>
  \<open>Array.prototype.join\<close>: the elements with the separator between them.
\<close>

fun join :: "string \<Rightarrow> string list \<Rightarrow> string" where
  "join sep [] = []"
| "join sep [x] = x"
| "join sep (x # y # ys) = x @ sep @ join sep (y # ys)"

text \<open>
  \<open>JSON.stringify\<close> of a string: between double quotes, with the double quote, the
  backslash and the control characters below U+0020 escaped.
\<close>

definition hexdigit :: "nat \<Rightarrow> char" where
  "hexdigit n = (''0123456789abcdef'' ! n)"

definition escape :: "char \<Rightarrow> string" where
  "escape c =
     (if c = CHR 0x22 then [CHR 0x5C, CHR 0x22]
      else if c = CHR 0x5C then [CHR 0x5C, CHR 0x5C]
      else if c = CHR 0x08 then [CHR 0x5C, CHR ''b'']
      else if c = CHR 0x0C then [CHR 0x5C, CHR ''f'']
      else if c = CHR 0x0A then [CHR 0x5C, CHR ''n'']
      else if c = CHR 0x0D then [CHR 0x5C, CHR ''r'']
      else if c = CHR 0x09 then [CHR 0x5C, CHR ''t'']
      else if (of_char c :: nat) < 32
        then [CHR 0x5C, CHR ''u'', CHR ''0'', CHR ''0'',
              hexdigit (of_char c div 16), hexdigit (of_char c mod 16)]
      else [c])"

definition quote :: "string \<Rightarrow> string" where
  "quote s = CHR 0x22 # concat (map escape s) @ [CHR 0x22]"

text \<open>
  \<open>stringify\<close> is the package json-stable-stringify, called without options: as
  \<open>JSON.stringify\<close>, but the keys of every object are sorted (\<open>Object.keys(node).sort()\<close>,
  the order of strings) before the properties are written.
\<close>

fun stringify :: "json \<Rightarrow> string" where
  "stringify (JString s) = quote s"
| "stringify (JArray xs) = ''['' @ join '','' (map stringify xs) @ '']''"
| "stringify (JObject kvs) =
     ''{'' @ join '','' (map (\<lambda>(k, v). quote k @ '':'' @ stringify v) (sort_key fst kvs)) @ ''}''"

definition hasConfigChanged :: "config \<Rightarrow> config \<Rightarrow> bool" where
  "hasConfigChanged stored submitted \<longleftrightarrow>
     stringify (config_json stored) \<noteq> stringify (config_json submitted)"

subsection \<open>The registry, the outside world and its answers\<close>

text \<open>
  Every run of \<open>startClient\<close> that gets as far as the transport builds a fresh
  \<open>StdioClientTransport\<close> and a fresh \<open>Client\<close>. A \<open>handle\<close> names that pair of
  objects: the client id together with the number of pairs built for this id before.
\<close>

type_synonym handle = "string \<times> nat"

text \<open>The argument of \<open>new StdioClientTransport\<close>; \<open>None\<close> is \<open>env: undefined\<close>.\<close>

record server_params =
  sp_command :: string
  sp_args :: "string list"
  sp_env :: "(string \<times> string) list option"

record entry =
  entry_id :: string
  client :: handle
  transport :: server_params
  entry_command :: string
  entry_args :: "string list"
  entry_env :: "(string \<times> string) list"
  config :: config
  createdAt :: nat

text \<open>
  The calls made on SDK objects, and (to speak about their order) the two mutations of the
  registry, \<open>clients.set\<close> and \<open>clients.delete\<close>.
\<close>

datatype event =
    TransportCreated handle server_params
  | ConnectCalled handle
  | CloseCalled handle
  | CallToolCalled handle string string
  | ClientsSet string handle
  | ClientsDelete string

text \<open>
  \<open>created\<close> counts the handles built per id; \<open>now\<close> is \<open>Date.now()\<close> in milliseconds.
  \<open>unhandled\<close> holds the reasons of the rejected promises that have no handler. The
  module installs no \<open>unhandledRejection\<close> handler, so Node ends the process as soon as
  it finds one.
\<close>

record world =
  clients :: "string \<rightharpoonup> entry"
  events :: "event list"
  created :: "string \<Rightarrow> nat"
  now :: nat
  unhandled :: "string list"

text \<open>
  How a promise of the SDK settles. The number is the time in milliseconds between the call
  of \<open>connect\<close> and its settling. \<open>close\<close> is an \<open>async\<close> method: its failure is a
  rejected promise, never a synchronous throw. \<open>timer_lag\<close> is how late after its
  300000 ms the callback of \<open>setTimeout\<close> runs.
\<close>

datatype connect_outcome = Resolves nat | Rejects nat string | NeverSettles

datatype close_outcome = Closed | CloseRejects string

record environment =
  connect :: "handle \<Rightarrow> connect_outcome"
  close :: "handle \<Rightarrow> close_outcome"
  callTool :: "handle \<Rightarrow> string \<Rightarrow> string \<Rightarrow> string + string"
  timer_lag :: "handle \<Rightarrow> nat"
  getDefaultEnvironment :: "(string \<times> string) list"

text \<open>A JavaScript \<open>Error\<close> with its message.\<close>

datatype error = Error (message: string)

subsection \<open>startClient\<close>

text \<open>
  Object spread \<open>{...base, ...ext}\<close>: the properties of \<open>ext\<close> are assigned one after the
  other; assigning an existing key replaces its value in place, a new key goes to the end.
  That is the order in which the object lists its properties as long as no key is an
  array index (\<open>"0"\<close>, \<open>"1"\<close>, ...), which an engine lists first; the names of
  environment variables are taken not to be. The mapping from keys to values is the same
  in any case.
\<close>

primrec assign :: "string \<times> string \<Rightarrow> (string \<times> string) list \<Rightarrow> (string \<times> string) list" where
  "assign kv [] = [kv]"
| "assign kv (p # ps) = (if fst p = fst kv then kv # ps else p # assign kv ps)"

definition spread :: "(string \<times> string) list \<Rightarrow> (string \<times> string) list \<Rightarrow> (string \<times> string) list" where
  "spread base ext = fold assign ext base"

text \<open>The \<open>env\<close> passed to the transport (lines 48 to 55).\<close>

definition transport_env :: "environment \<Rightarrow> (string \<times> string) list \<Rightarrow> (string \<times> string) list option" where
  "transport_env E env' =
     (if length env' > 0 then Some (spread (getDefaultEnvironment E) env') else None)"

text \<open>A number inside a template literal: its decimal digits.\<close>

fun show_nat :: "nat \<Rightarrow> string" where
  "show_nat n =
     (if n < 10 then [''0123456789'' ! n] else show_nat (n div 10) @ [''0123456789'' ! (n mod 10)])"

declare show_nat.simps [simp del]

definition timeout_message :: "nat \<Rightarrow> string \<Rightarrow> string \<Rightarrow> string list \<Rightarrow> string" where
  "timeout_message elapsed clientId cmd args' =
     ''Connection timeout after '' @ show_nat elapsed @ ''ms. Client: '' @ clientId
       @ '', Command: '' @ cmd @ '' '' @ join '' '' args'"

text \<open>
  \<open>Promise.race\<close> of the connect promise and the timeout promise: the one that settles
  first decides. The timer callback runs \<open>300000 + timer_lag\<close> ms after the call and
  measures that time as \<open>elapsed\<close>; a connect promise settling in the same millisecond
  loses. The result is the time of settling and the outcome.
\<close>

datatype settled = Connected nat | Failed nat error

definition race :: "environment \<Rightarrow> handle \<Rightarrow> string \<Rightarrow> string \<Rightarrow> string list \<Rightarrow> settled" where
  "race E h clientId cmd args' =
     (let elapsed = 300000 + timer_lag E h;
          timeout = Failed elapsed (Error (timeout_message elapsed clientId cmd args'))
      in case connect E h of
           Resolves d \<Rightarrow> if d < elapsed then Connected d else timeout
         | Rejects d m \<Rightarrow> if d < elapsed then Failed d (Error m) else timeout
         | NeverSettles \<Rightarrow> timeout)"

text \<open>
  \<open>startClient\<close> is an \<open>async\<close> function with one \<open>await\<close>. What it does up to the
  \<open>await\<close> runs at once, when it is called: \<open>startClient_begin\<close>. It either throws
  (\<open>Thrown\<close>: the promise is rejected on the spot) or is left waiting for the race.
  \<open>startClient_finish\<close> is the rest, run when the race has settled.
\<close>

record started =
  started_id :: string
  started_message :: string

datatype starting = Thrown error | Awaiting string config handle server_params nat

definition startClient_begin :: "environment \<Rightarrow> string \<Rightarrow> config \<Rightarrow> world \<Rightarrow> starting \<times> world" where
  "startClient_begin E clientId cfg w =
     (let args' = (case args cfg of None \<Rightarrow> [] | Some a \<Rightarrow> a);
          env' = (case env cfg of None \<Rightarrow> [] | Some e \<Rightarrow> e)
      in case command cfg of
           None \<Rightarrow> (Thrown (Error ''Command is required''), w)
         | Some cmd \<Rightarrow>
             if cmd = [] then (Thrown (Error ''Command is required''), w)
             else
               let h = (clientId, created w clientId);
                   tr = \<lparr>sp_command = cmd, sp_args = args', sp_env = transport_env E env'\<rparr>;
                   connectStartTime = now w
               in (Awaiting clientId cfg h tr connectStartTime,
                   w\<lparr>events := events w @ [TransportCreated h tr, ConnectCalled h],
                     created := (created w)(clientId := Suc (created w clientId))\<rparr>))"

fun startClient_finish :: "environment \<Rightarrow> starting \<Rightarrow> world \<Rightarrow> (error + started) \<times> world" where
  "startClient_finish E (Thrown e) w = (Inl e, w)"
| "startClient_finish E (Awaiting clientId cfg h tr connectStartTime) w =
     (case race E h clientId (sp_command tr) (sp_args tr) of
        Failed d e \<Rightarrow> (Inl e, w\<lparr>now := connectStartTime + d\<rparr>)
      | Connected d \<Rightarrow>
          (Inr \<lparr>started_id = clientId, started_message = ''MCP client started successfully''\<rparr>,
           w\<lparr>now := connectStartTime + d,
             clients := (clients w)(clientId \<mapsto>
               \<lparr>entry_id = clientId, client = h, transport = tr,
                entry_command = sp_command tr, entry_args = sp_args tr,
                entry_env = (case env cfg of None \<Rightarrow> [] | Some e \<Rightarrow> e),
                config = cfg, createdAt = connectStartTime + d\<rparr>),
             events := events w @ [ClientsSet clientId h]\<rparr>))"

text \<open>A run of \<open>startClient\<close> with nothing else in between.\<close>

definition startClient :: "environment \<Rightarrow> string \<Rightarrow> config \<Rightarrow> world \<Rightarrow> (error + started) \<times> world" where
  "startClient E clientId cfg w =
     (let (s, w') = startClient_begin E clientId cfg w in startClient_finish E s w')"

subsection \<open>POST /start\<close>

text \<open>
  The handler maps an \<open>async\<close> callback over \<open>Object.entries(mcpServers)\<close> and awaits
  all the promises. The callback has one \<open>await\<close>, that of \<open>startClient\<close>. So the calls
  of \<open>map\<close> run, for each entry in turn, what comes before it: the look-up in the registry,
  the comparison of the two configurations, the call of \<open>close\<close> and the beginning
  of \<open>startClient\<close>. A callback that returned early is \<open>Returned\<close>; the others are
  \<open>Pending\<close> on the promise of \<open>startClient\<close>.

  The promise of \<open>close\<close> is dropped: it is neither awaited nor given a
  \<open>catch\<close>. When it is rejected, the rejection has no handler.
\<close>

definition dropped :: "close_outcome \<Rightarrow> string list" where
  "dropped c = (case c of Closed \<Rightarrow> [] | CloseRejects m \<Rightarrow> [m])"

record failure =
  failure_id :: string
  failure_error :: string

record results =
  success :: "started list"
  errors :: "failure list"

datatype task = Returned | Pending string starting

definition start_one_begin :: "environment \<Rightarrow> string \<times> config \<Rightarrow> world \<Rightarrow> task \<times> world" where
  "start_one_begin E p w =
     (let serverId = fst p; cfg = snd p
      in case clients w serverId of
           None \<Rightarrow>
             (let (s, w') = startClient_begin E serverId cfg w in (Pending serverId s, w'))
         | Some e \<Rightarrow>
             if \<not> hasConfigChanged (config e) cfg then (Returned, w)
             else
               let w1 = w\<lparr>events := events w @ [CloseCalled (client e)],
                          unhandled := unhandled w @ dropped (close E (client e))\<rparr>;
                   (s, w') = startClient_begin E serverId cfg w1
               in (Pending serverId s, w'))"

text \<open>The rest of the callback: the result is pushed on one of the two lists.\<close>

fun start_one_finish :: "environment \<Rightarrow> task \<Rightarrow> results \<times> world \<Rightarrow> results \<times> world" where
  "start_one_finish E Returned (res, w) = (res, w)"
| "start_one_finish E (Pending serverId s) (res, w) =
     (case startClient_finish E s w of
        (Inr r, w') \<Rightarrow> (res\<lparr>success := success res @ [r]\<rparr>, w')
      | (Inl e, w') \<Rightarrow>
          (res\<lparr>errors := errors res @
             [\<lparr>failure_id = serverId, failure_error = ''Failed to initialize: '' @ message e\<rparr>]\<rparr>, w'))"

text \<open>
  One callback alone, from its call to its end. An unhandled rejection ends the process
  before the awaited promise settles, and the callback never resumes.
\<close>

definition start_one :: "environment \<Rightarrow> string \<times> config \<Rightarrow> results \<times> world \<Rightarrow> (results \<times> world) option" where
  "start_one E p rw =
     (let (t, w') = start_one_begin E p (snd rw)
      in if unhandled w' = [] then Some (start_one_finish E t (fst rw, w')) else None)"

fun begin_all :: "environment \<Rightarrow> (string \<times> config) list \<Rightarrow> world \<Rightarrow> task list \<times> world" where
  "begin_all E [] w = ([], w)"
| "begin_all E (p # ps) w =
     (let (t, w1) = start_one_begin E p w; (ts, w2) = begin_all E ps w1 in (t # ts, w2))"

text \<open>
  The callbacks resume in the order in which their promises settle. Those that returned or
  threw before any \<open>await\<close> come first, in the order of the entries (their continuations
  are microtasks, queued in that order); the others follow by the time at which their race
  settles, entries settling in the same millisecond in the order of the entries. When one
  of the callbacks has left an unhandled rejection behind, the process ends before any
  race settles: no callback resumes and no response is sent.
\<close>

fun immediate :: "task \<Rightarrow> bool" where
  "immediate Returned = True"
| "immediate (Pending serverId (Thrown e)) = True"
| "immediate (Pending serverId (Awaiting clientId cfg h tr t0)) = False"

fun settles_at :: "environment \<Rightarrow> task \<Rightarrow> nat" where
  "settles_at E (Pending serverId (Awaiting clientId cfg h tr t0)) =
     (case race E h clientId (sp_command tr) (sp_args tr) of
        Connected d \<Rightarrow> t0 + d | Failed d e \<Rightarrow> t0 + d)"
| "settles_at E t = 0"

definition schedule :: "environment \<Rightarrow> task list \<Rightarrow> task list" where
  "schedule E ts = filter immediate ts @ sort_key (settles_at E) (filter (\<lambda>t. \<not> immediate t) ts)"

definition finish_all :: "environment \<Rightarrow> task list \<Rightarrow> results \<times> world \<Rightarrow> results \<times> world" where
  "finish_all E ts rw = fold (start_one_finish E) ts rw"

definition startBatch :: "environment \<Rightarrow> (string \<times> config) list \<Rightarrow> world \<Rightarrow> (results \<times> world) option" where
  "startBatch E mcpServers w =
     (let (ts, w1) = begin_all E mcpServers w
      in if unhandled w1 = []
         then Some (finish_all E (schedule E ts) (\<lparr>success = [], errors = []\<rparr>, w1))
         else None)"

text \<open>
  The bodies of the responses. \<open>mcpServers\<close> is \<open>None\<close> when the request body has no
  such property: \<open>Object.entries(undefined)\<close> throws into the outer \<open>catch\<close>.
\<close>

datatype body =
    AllStarted "started list"
  | SomeFailed "started list" "failure list"
  | ErrorOnly string
  | ErrorDetails string string
  | Restarted string started
  | MessageOnly string
  | ToolResult string

type_synonym response = "nat \<times> body"

definition post_start :: "environment \<Rightarrow> (string \<times> config) list option \<Rightarrow> world \<Rightarrow> (response \<times> world) option" where
  "post_start E mcpServers w =
     (case mcpServers of
        None \<Rightarrow> Some ((500, ErrorOnly ''Internal server error''), w)
      | Some servers \<Rightarrow>
          (case startBatch E servers w of
             None \<Rightarrow> None
           | Some (res, w') \<Rightarrow>
               if length (errors res) = 0
               then Some ((201, AllStarted (success res)), w')
               else Some ((400, SomeFailed (success res) (errors res)), w')))"

subsection \<open>POST /restart/:id, POST /clients/:id/call_tools, DELETE /clients/:id\<close>

text \<open>
  In \<open>/restart/:id\<close> the stored \<open>config\<close> is an object, hence truthy, and the fallback
  after \<open>||\<close> is never taken. The \<open>await\<close> of \<open>close\<close> is inside the \<open>try\<close>: a
  rejection goes to the \<open>catch\<close>.
\<close>

definition post_restart :: "environment \<Rightarrow> string \<Rightarrow> world \<Rightarrow> response \<times> world" where
  "post_restart E i w =
     (case clients w i of
        None \<Rightarrow> ((404, ErrorOnly ''Client not found''), w)
      | Some clientEntry \<Rightarrow>
          let cfg = config clientEntry;
              w1 = w\<lparr>events := events w @ [CloseCalled (client clientEntry)]\<rparr>
          in case close E (client clientEntry) of
               CloseRejects m \<Rightarrow> ((500, ErrorDetails ''Failed to restart client'' m), w1)
             | Closed \<Rightarrow>
                 let w2 = w1\<lparr>clients := (clients w1)(i := None),
                             events := events w1 @ [ClientsDelete i]\<rparr>
                 in case startClient E i cfg w2 of
                      (Inr r, w3) \<Rightarrow>
                        ((200, Restarted (''Client '' @ i @ '' restarted successfully'') r), w3)
                    | (Inl e, w3) \<Rightarrow>
                        ((500, ErrorDetails ''Failed to restart client'' (message e)), w3))"

text \<open>
  The tool name and its arguments come from the request body; the name is \<open>None\<close> when
  the property is missing. The arguments are a JSON value, of which the handler only asks
  whether it is truthy (\<open>toolArgs || {}\<close>): a missing property and the falsy values
  (\<open>null\<close>, \<open>false\<close>, \<open>0\<close>, the empty string) are replaced by an empty object, any
  other value is passed on as it is. Values and results are kept as JSON texts.
\<close>

datatype posted = Absent | Falsy string | Truthy string

definition post_call_tools :: "environment \<Rightarrow> string \<Rightarrow> string option \<Rightarrow> posted \<Rightarrow> world \<Rightarrow> response \<times> world" where
  "post_call_tools E i name toolArgs w =
     (case (case name of None \<Rightarrow> None | Some n \<Rightarrow> if n = [] then None else Some n) of
        None \<Rightarrow> ((400, ErrorOnly ''Tool name is required''), w)
      | Some n \<Rightarrow>
          (case clients w i of
             None \<Rightarrow> ((404, ErrorOnly ''Client not found''), w)
           | Some clientEntry \<Rightarrow>
               let arguments = (case toolArgs of Truthy a \<Rightarrow> a | Falsy a \<Rightarrow> ''{}'' | Absent \<Rightarrow> ''{}'');
                   w1 = w\<lparr>events := events w @ [CallToolCalled (client clientEntry) n arguments]\<rparr>
               in case callTool E (client clientEntry) n arguments of
                    Inr result \<Rightarrow> ((200, ToolResult result), w1)
                  | Inl m \<Rightarrow> ((500, ErrorDetails ''Failed to call tool'' m), w1)))"

definition delete_client :: "environment \<Rightarrow> string \<Rightarrow> world \<Rightarrow> response \<times> world" where
  "delete_client E i w =
     (case clients w i of
        None \<Rightarrow> ((404, ErrorOnly ''Client not found''), w)
      | Some clientEntry \<Rightarrow>
          let w1 = w\<lparr>events := events w @ [CloseCalled (client clientEntry)]\<rparr>
          in case close E (client clientEntry) of
               CloseRejects m \<Rightarrow> ((500, ErrorDetails ''Failed to delete client'' m), w1)
             | Closed \<Rightarrow>
                 ((200, MessageOnly ''Client deleted successfully''),
                  w1\<lparr>clients := (clients w1)(i := None),
                     events := events w1 @ [ClientsDelete i]\<rparr>))"

subsection \<open>What the responses and the specification speak about\<close>

text \<open>The two lists of a response of \<open>/start\<close>; a 201 carries no \<open>errors\<close>.\<close>

fun body_success :: "body \<Rightarrow> started list" where
  "body_success (AllStarted s) = s"
| "body_success (SomeFailed s e) = s"
| "body_success b = []"

fun body_errors :: "body \<Rightarrow> failure list" where
  "body_errors (SomeFailed s e) = e"
| "body_errors b = []"

text \<open>
  A JSON object has each key once: \<open>wf_config\<close>. The specification's equality of
  configurations is \<open>same_config\<close>: the same command, the same arguments in the same
  order, and environments with the same keys and values, in whatever order.
\<close>

definition wf_config :: "config \<Rightarrow> bool" where
  "wf_config c = (case env c of None \<Rightarrow> True | Some kvs \<Rightarrow> distinct (map fst kvs))"

definition same_env :: "(string \<times> string) list option \<Rightarrow> (string \<times> string) list option \<Rightarrow> bool" where
  "same_env a b =
     (case a of
        None \<Rightarrow> (case b of None \<Rightarrow> True | Some ys \<Rightarrow> False)
      | Some xs \<Rightarrow> (case b of None \<Rightarrow> False | Some ys \<Rightarrow> set xs = set ys))"

definition same_config :: "config \<Rightarrow> config \<Rightarrow> bool" where
  "same_config c c' = (command c = command c' \<and> args c = args c' \<and> same_env (env c) (env c'))"

text \<open>
  The text of a configuration, property by property, in the order in which \<open>stringify\<close>
  writes them (\<open>args\<close>, \<open>command\<close>, \<open>env\<close>).
\<close>

definition items :: "('a \<Rightarrow> string) \<Rightarrow> 'a list \<Rightarrow> string" where
  "items f xs = concat (map (\<lambda>x. CHR '','' # f x) xs)"

datatype part = PArgs "string list" | PCommand string | PEnv "(string \<times> string) list"

definition pair_text :: "string \<times> string \<Rightarrow> string" where
  "pair_text kv = quote (fst kv) @ '':'' @ quote (snd kv)"

fun part_text :: "part \<Rightarrow> string" where
  "part_text (PArgs xs) = quote ''args'' @ '':'' @ ''['' @ join '','' (map quote xs) @ '']''"
| "part_text (PCommand s) = quote ''command'' @ '':'' @ quote s"
| "part_text (PEnv kvs) = quote ''env'' @ '':'' @ ''{'' @ join '','' (map pair_text kvs) @ ''}''"

definition parts :: "config \<Rightarrow> part list" where
  "parts c =
     (case args c of None \<Rightarrow> [] | Some xs \<Rightarrow> [PArgs xs])
   @ (case command c of None \<Rightarrow> [] | Some s \<Rightarrow> [PCommand s])
   @ (case env c of None \<Rightarrow> [] | Some kvs \<Rightarrow> [PEnv (sort_key fst kvs)])"

subsection \<open>A small world to run the handlers in\<close>

text \<open>
  An SDK whose \<open>connect\<close> never settles for the id \<open>slow\<close>, is rejected after 40 ms for
  the id \<open>bad\<close> and resolves after 1200 ms for every other id; \<open>close\<close> is rejected for
  the clients of the id \<open>stuck\<close>.
\<close>

definition demo_env :: environment where
  "demo_env =
     \<lparr>connect = (\<lambda>h. if fst h = ''slow'' then NeverSettles
                     else if fst h = ''bad'' then Rejects 40 ''spawn ENOENT''
                     else Resolves 1200),
      close = (\<lambda>h. if fst h = ''stuck'' then CloseRejects ''close failed'' else Closed),
      callTool = (\<lambda>h n a. Inr ''{}''),
      timer_lag = (\<lambda>h. 3),
      getDefaultEnvironment = [(''HOME'', ''/root''), (''PATH'', ''/usr/bin'')]\<rparr>"

definition demo_config :: config where
  "demo_config = \<lparr>command = Some ''npx'', args = Some [''-y'', ''srv''], env = Some [(''B'', ''2''), (''A'', ''1'')]\<rparr>"

definition demo_world :: world where
  "demo_world = \<lparr>clients = Map.empty, events = [], created = (\<lambda>i. 0), now = 1000, unhandled = []\<rparr>"

definition demo_entry :: "string \<Rightarrow> config \<Rightarrow> entry" where
  "demo_entry i c =
     \<lparr>entry_id = i, client = (i, 0),
      transport = \<lparr>sp_command = ''npx'', sp_args = [], sp_env = None\<rparr>,
      entry_command = ''npx'', entry_args = [], entry_env = [],
      config = c, createdAt = 500\<rparr>"

text \<open>The registry holding one entry, built before for the given id.\<close>

definition demo_running :: "string \<Rightarrow> config \<Rightarrow> world" where
  "demo_running i c =
     \<lparr>clients = [i \<mapsto> demo_entry i c], events = [], created = (\<lambda>j. if j = i then 1 else 0),
      now = 1000, unhandled = []\<rparr>"

subsection \<open>What a pending callback will do\<close>

text \<open>
  The id a task belongs to; the ids of the callback and of its \<open>startClient\<close> agree
  (\<open>wf_task\<close>); what the task pushes on the two lists when it resumes (\<open>pushed\<close>) and
  the entry it stores then, if any (\<open>stored\<close>).
\<close>

fun task_id :: "task \<Rightarrow> string option" where
  "task_id Returned = None"
| "task_id (Pending serverId s) = Some serverId"

fun wf_task :: "task \<Rightarrow> bool" where
  "wf_task (Pending serverId (Awaiting clientId cfg h tr t0)) = (clientId = serverId)"
| "wf_task t = True"

fun pushed :: "environment \<Rightarrow> task \<Rightarrow> results" where
  "pushed E Returned = \<lparr>success = [], errors = []\<rparr>"
| "pushed E (Pending serverId s) =
     fst (start_one_finish E (Pending serverId s) (\<lparr>success = [], errors = []\<rparr>,
          \<lparr>clients = Map.empty, events = [], created = (\<lambda>i. 0), now = 0, unhandled = []\<rparr>))"

fun stored :: "environment \<Rightarrow> task \<Rightarrow> entry option" where
  "stored E (Pending serverId (Awaiting clientId cfg h tr t0)) =
     (case race E h clientId (sp_command tr) (sp_args tr) of
        Failed d e \<Rightarrow> None
      | Connected d \<Rightarrow>
          Some \<lparr>entry_id = clientId, client = h, transport = tr,
                entry_command = sp_command tr, entry_args = sp_args tr,
                entry_env = (case env cfg of None \<Rightarrow> [] | Some e \<Rightarrow> e),
                config = cfg, createdAt = t0 + d\<rparr>)"
| "stored E t = None"

section \<open>Properties\<close>

subsection \<open>Sorting the keys of an object\<close>

lemma sort_key_unique:
  assumes "distinct (map fst xs)" and "distinct (map fst ys)" and "set xs = set ys"
  shows "sort_key fst xs = sort_key fst ys"
proof (rule map_sorted_distinct_set_unique [where f = fst])
  have "inj_on fst (set xs)" using assms(1) by (simp add: distinct_map)
  then show "inj_on fst (set (sort_key fst xs) \<union> set (sort_key fst ys))"
    using assms(3) by simp
  show "sorted (map fst (sort_key fst xs))" "sorted (map fst (sort_key fst ys))"
    by (rule sorted_sort_key)+
  show "distinct (map fst (sort_key fst xs))"
    using assms(1) by (simp add: distinct_map)
  show "distinct (map fst (sort_key fst ys))"
    using assms(2) by (simp add: distinct_map)
  show "set (sort_key fst xs) = set (sort_key fst ys)"
    using assms(3) by simp
qed

subsection \<open>The text of a quoted string is a prefix code\<close>

lemma hexdigit_inj: "n < 16 \<Longrightarrow> m < 16 \<Longrightarrow> hexdigit n = hexdigit m \<Longrightarrow> n = m"
  unfolding hexdigit_def
  by (subst (asm) nth_eq_iff_index_eq) simp_all

lemma escape_not_quote: "\<exists>x xs. escape c = x # xs \<and> x \<noteq> CHR 0x22"
  by (simp add: escape_def)

lemma control_code:
  assumes "(of_char c :: nat) < 32" "(of_char c' :: nat) < 32"
    and "hexdigit (of_char c div 16) = hexdigit (of_char c' div 16)"
    and "hexdigit (of_char c mod 16) = hexdigit (of_char c' mod 16)"
  shows "c = c'"
proof -
  have "(of_char c :: nat) div 16 = of_char c' div 16"
    using assms(1,2) by (intro hexdigit_inj [OF _ _ assms(3)]) simp_all
  moreover have "(of_char c :: nat) mod 16 = of_char c' mod 16"
    by (intro hexdigit_inj [OF _ _ assms(4)]) simp_all
  ultimately have "(of_char c :: nat) = of_char c'"
    by (metis div_mult_mod_eq)
  then show ?thesis by simp
qed

lemma escape_prefix_code:
  "escape c @ r = escape c' @ r' \<Longrightarrow> c = c' \<and> r = r'"
  unfolding escape_def
  by (auto split: if_splits dest: control_code)


lemma escaped_prefix_code:
  "concat (map escape s) @ CHR 0x22 # r = concat (map escape s') @ CHR 0x22 # r' \<Longrightarrow> s = s' \<and> r = r'"
proof (induction s arbitrary: s')
  case Nil
  show ?case
  proof (cases s')
    case Nil
    with Nil.prems show ?thesis by simp
  next
    case (Cons c cs)
    obtain x xs where "escape c = x # xs" "x \<noteq> CHR 0x22"
      using escape_not_quote by blast
    with Nil.prems Cons show ?thesis by simp
  qed
next
  case (Cons a s)
  show ?case
  proof (cases s')
    case Nil
    obtain x xs where "escape a = x # xs" "x \<noteq> CHR 0x22"
      using escape_not_quote by blast
    with Cons.prems Nil show ?thesis by simp
  next
    case (Cons c cs)
    with Cons.prems have "escape a @ (concat (map escape s) @ CHR 0x22 # r)
        = escape c @ (concat (map escape cs) @ CHR 0x22 # r')"
      by simp
    then have "a = c" and "concat (map escape s) @ CHR 0x22 # r = concat (map escape cs) @ CHR 0x22 # r'"
      using escape_prefix_code by blast+
    with Cons.IH Cons show ?thesis by simp
  qed
qed

lemma quote_prefix_code: "quote s @ r = quote s' @ r' \<Longrightarrow> s = s' \<and> r = r'"
  using escaped_prefix_code [of s r s' r'] by (simp add: quote_def)

lemma quote_Cons: "\<exists>t. quote s = CHR 0x22 # t"
  by (simp add: quote_def)

lemma join_items: "join '','' (f x # map f xs) = f x @ items f xs"
  by (induction xs arbitrary: x) (simp_all add: items_def)

lemma items_inject:
  assumes code: "\<And>x y r r'. f x @ r = f y @ r' \<Longrightarrow> x = y \<and> r = r'"
    and "c \<noteq> CHR '',''"
  shows "items f xs @ c # r = items f ys @ c # r' \<Longrightarrow> xs = ys \<and> r = r'"
proof (induction xs arbitrary: ys)
  case Nil
  then show ?case using assms(2) by (cases ys) (auto simp: items_def)
next
  case (Cons x xs)
  show ?case
  proof (cases ys)
    case Nil
    with Cons.prems assms(2) show ?thesis by (auto simp: items_def)
  next
    case (Cons y ys')
    with Cons.prems have "f x @ (items f xs @ c # r) = f y @ (items f ys' @ c # r')"
      by (simp add: items_def)
    then have "x = y" "items f xs @ c # r = items f ys' @ c # r'"
      using code by blast+
    with Cons.IH Cons show ?thesis by simp
  qed
qed

lemma joined_inject:
  assumes code: "\<And>x y r r'. f x @ r = f y @ r' \<Longrightarrow> x = y \<and> r = r'"
    and start: "\<And>x. \<exists>t. f x = CHR 0x22 # t"
    and "c \<noteq> CHR '',''" "c \<noteq> CHR 0x22"
  shows "join '','' (map f xs) @ c # r = join '','' (map f ys) @ c # r' \<Longrightarrow> xs = ys \<and> r = r'"
proof (cases xs; cases ys)
  fix x xs' y ys'
  assume eq: "join '','' (map f xs) @ c # r = join '','' (map f ys) @ c # r'"
    and xs: "xs = x # xs'" and ys: "ys = y # ys'"
  then have "f x @ (items f xs' @ c # r) = f y @ (items f ys' @ c # r')"
    by (simp add: join_items)
  then have "x = y" "items f xs' @ c # r = items f ys' @ c # r'"
    using code by blast+
  with items_inject [OF code assms(3)] xs ys show ?thesis by blast
next
  fix y ys'
  assume "join '','' (map f xs) @ c # r = join '','' (map f ys) @ c # r'" "xs = []" "ys = y # ys'"
  then show ?thesis using start [of y] assms(4) by (auto simp: join_items)
next
  fix x xs'
  assume "join '','' (map f xs) @ c # r = join '','' (map f ys) @ c # r'" "xs = x # xs'" "ys = []"
  then show ?thesis using start [of x] assms(4) by (auto simp: join_items)
qed simp


lemma insort_key_map_snd:
  "insort_key fst (k, g v) (map (\<lambda>(k, v). (k, g v)) xs) = map (\<lambda>(k, v). (k, g v)) (insort_key fst (k, v) xs)"
  by (induction xs) auto

lemma sort_key_map_snd:
  "sort_key fst (map (\<lambda>(k, v). (k, g v)) xs) = map (\<lambda>(k, v). (k, g v)) (sort_key fst xs)"
  by (induction xs) (auto simp: insort_key_map_snd)

lemma key_order: "''args'' < ''command''" "''command'' < ''env''" "''args'' < ''env''"
  by (simp_all add: less_char_def)

lemma pair_text_comp:
  "(\<lambda>(k, v). quote k @ '':'' @ stringify v) \<circ> (\<lambda>(k, v). (k, JString v)) = pair_text"
  by (auto simp: fun_eq_iff pair_text_def)

lemma stringify_JString_comp: "stringify \<circ> JString = quote"
  by (simp add: fun_eq_iff)

lemma env_text:
  "stringify (JObject (map (\<lambda>(k, v). (k, JString v)) kvs))
     = ''{'' @ join '','' (map pair_text (sort_key fst kvs)) @ ''}''"
  using pair_text_comp by (simp add: sort_key_map_snd)

lemma config_text:
  "stringify (config_json c) = ''{'' @ join '','' (map part_text (parts c)) @ ''}''"
proof -
  have le: "''args'' \<le> ''command''" "''command'' \<le> ''env''" "''args'' \<le> ''env''"
    "\<not> ''command'' \<le> ''args''" "\<not> ''env'' \<le> ''command''" "\<not> ''env'' \<le> ''args''"
    using key_order by (simp_all add: less_le_not_le)
  have obj: "stringify (JObject kvs) = ''{'' @ join '','' (map (\<lambda>(k, v). quote k @ '':'' @ stringify v) (sort_key fst kvs)) @ ''}''" for kvs
    by simp
  show ?thesis
    unfolding config_json_def property_def parts_def obj
    by (cases "command c"; cases "args c"; cases "env c")
       (simp_all add: le env_text stringify_JString_comp del: stringify.simps(3))
qed

lemma pair_text_prefix_code: "pair_text p @ r = pair_text q @ r' \<Longrightarrow> p = q \<and> r = r'"
proof -
  assume "pair_text p @ r = pair_text q @ r'"
  then have eq: "quote (fst p) @ (CHR '':'' # quote (snd p) @ r) = quote (fst q) @ (CHR '':'' # quote (snd q) @ r')"
    by (simp add: pair_text_def)
  then have "fst p = fst q" and "quote (snd p) @ r = quote (snd q) @ r'"
    using quote_prefix_code [OF eq] by simp_all
  then show ?thesis
    using quote_prefix_code [of "snd p" r "snd q" r'] by (simp add: prod_eq_iff)
qed

lemma pair_text_Cons: "\<exists>t. pair_text p = CHR 0x22 # t"
  by (simp add: pair_text_def quote_def)

lemma part_text_Cons: "\<exists>t. part_text p = CHR 0x22 # t"
  by (cases p) (simp_all add: quote_def)

lemma part_text_key:
  "\<exists>k t. part_text p = quote k @ CHR '':'' # t \<and>
     (case p of PArgs xs \<Rightarrow> k = ''args'' \<and> t = CHR ''['' # join '','' (map quote xs) @ '']''
      | PCommand s \<Rightarrow> k = ''command'' \<and> t = quote s
      | PEnv kvs \<Rightarrow> k = ''env'' \<and> t = CHR ''{'' # join '','' (map pair_text kvs) @ ''}'')"
  by (cases p) simp_all

lemma part_text_prefix_code: "part_text p @ r = part_text q @ r' \<Longrightarrow> p = q \<and> r = r'"
proof (cases p; cases q)
  fix xs ys
  assume eq: "part_text p @ r = part_text q @ r'" and p: "p = PArgs xs" and q: "q = PArgs ys"
  then have "quote ''args'' @ (CHR '':'' # CHR ''['' # join '','' (map quote xs) @ CHR '']'' # r)
           = quote ''args'' @ (CHR '':'' # CHR ''['' # join '','' (map quote ys) @ CHR '']'' # r')"
    by simp
  then have "join '','' (map quote xs) @ CHR '']'' # r = join '','' (map quote ys) @ CHR '']'' # r'"
    by simp
  then have "xs = ys \<and> r = r'"
    by (rule joined_inject [rotated -1]) (auto dest: quote_prefix_code simp: quote_Cons)
  with p q show ?thesis by simp
next
  fix s t
  assume eq: "part_text p @ r = part_text q @ r'" and p: "p = PCommand s" and q: "q = PCommand t"
  then have "quote s @ r = quote t @ r'" by simp
  with p q show ?thesis using quote_prefix_code by blast
next
  fix xs ys
  assume eq: "part_text p @ r = part_text q @ r'" and p: "p = PEnv xs" and q: "q = PEnv ys"
  then have "join '','' (map pair_text xs) @ CHR ''}'' # r = join '','' (map pair_text ys) @ CHR ''}'' # r'"
    by simp
  then have "xs = ys \<and> r = r'"
    by (rule joined_inject [rotated -1]) (auto dest: pair_text_prefix_code simp: pair_text_Cons)
  with p q show ?thesis by simp
qed (auto dest!: quote_prefix_code)

lemma parts_inject:
  assumes "stringify (config_json c) = stringify (config_json c')"
  shows "parts c = parts c'"
proof -
  from assms have "join '','' (map part_text (parts c)) @ CHR ''}'' # [] = join '','' (map part_text (parts c')) @ CHR ''}'' # []"
    by (simp add: config_text)
  then have "parts c = parts c' \<and> ([]::string) = []"
    by (rule joined_inject [rotated -1]) (auto dest: part_text_prefix_code simp: part_text_Cons)
  then show ?thesis by simp
qed

lemma hasConfigChanged_iff:
  assumes "wf_config c" and "wf_config c'"
  shows "hasConfigChanged c c' \<longleftrightarrow> \<not> same_config c c'"
proof
  assume "hasConfigChanged c c'"
  show "\<not> same_config c c'"
  proof
    assume same: "same_config c c'"
    have "parts c = parts c'"
      using same assms
      by (auto simp: parts_def same_config_def same_env_def wf_config_def
          split: option.splits intro: sort_key_unique)
    then have "stringify (config_json c) = stringify (config_json c')"
      by (simp add: config_text)
    with \<open>hasConfigChanged c c'\<close> show False by (simp add: hasConfigChanged_def)
  qed
next
  assume "\<not> same_config c c'"
  show "hasConfigChanged c c'"
  proof (rule ccontr)
    assume "\<not> hasConfigChanged c c'"
    then have "stringify (config_json c) = stringify (config_json c')"
      unfolding hasConfigChanged_def by blast
    then have p: "parts c = parts c'"
      by (rule parts_inject)
    have "command c = command c'" "args c = args c'"
      using p by (auto simp: parts_def split: option.splits)
    moreover have "same_env (env c) (env c')"
    proof (cases "env c")
      case None
      with p show ?thesis
        by (cases "env c'") (simp_all add: parts_def same_env_def split: option.splits)
    next
      case (Some xs)
      show ?thesis
      proof (cases "env c'")
        case None
        with p Some show ?thesis
          by (simp add: parts_def split: option.splits)
      next
        case (Some ys)
        with p \<open>env c = Some xs\<close> have "sort_key fst xs = sort_key fst ys"
          by (simp add: parts_def split: option.splits)
        then have "set (sort_key fst xs) = set (sort_key fst ys)"
          by (rule arg_cong)
        then have "set xs = set ys"
          by (simp only: set_sort)
        with Some \<open>env c = Some xs\<close> show ?thesis
          by (simp add: same_env_def)
      qed
    qed
    ultimately show False using \<open>\<not> same_config c c'\<close> by (simp add: same_config_def)
  qed
qed

subsection \<open>Object spread as a map\<close>

lemma map_of_assign: "map_of (assign kv ps) = (map_of ps)(fst kv \<mapsto> snd kv)"
  by (induction ps) (auto simp: fun_eq_iff)

lemma map_of_spread_rev: "map_of (spread base ext) = map_of base ++ map_of (rev ext)"
  unfolding spread_def
  by (induction ext arbitrary: base) (auto simp: map_of_assign fun_eq_iff map_add_def split: option.splits)

lemma map_of_rev_distinct: "distinct (map fst xs) \<Longrightarrow> map_of (rev xs) = map_of xs"
proof (induction xs)
  case Nil
  show ?case by simp
next
  case (Cons x xs)
  then have ih: "map_of (rev xs) = map_of xs" and fresh: "map_of xs (fst x) = None"
    by (simp_all add: map_of_eq_None_iff)
  show ?case
  proof
    fix k
    show "map_of (rev (x # xs)) k = map_of (x # xs) k"
      using ih fresh by (cases "map_of xs k") (auto simp: map_add_def)
  qed
qed

lemma map_of_spread:
  "distinct (map fst ext) \<Longrightarrow> map_of (spread base ext) = map_of base ++ map_of ext"
  by (simp add: map_of_spread_rev map_of_rev_distinct)

subsection \<open>startClient and the registry\<close>

text \<open>
  Claim C1. Whenever \<open>startClient\<close> fails, the error of the failing step is its result
  and the registry is the one it started from: no \<open>clients.set\<close> has happened. Without
  a command the error is \<open>Command is required\<close> and nothing at all has been done; a
  connect promise rejected before the timer ran gives the error it was rejected with; a
  connect promise that has not settled when the timer runs gives the timeout error. It
  returns a result exactly when there is a non-empty command and the connect promise
  resolved before the timer ran, so an entry is stored only after a successful connect.
\<close>

theorem startClient_failure_leaves_registry:
  assumes "startClient E clientId cfg w = (r, w')"
  shows "(\<forall>e. r = Inl e \<longrightarrow> clients w' = clients w \<and>
            (\<exists>evs. events w' = events w @ evs \<and> (\<forall>i h. ClientsSet i h \<notin> set evs)))
       \<and> ((\<exists>s. r = Inr s) \<longleftrightarrow>
            (\<exists>cmd d. command cfg = Some cmd \<and> cmd \<noteq> [] \<and>
               connect E (clientId, created w clientId) = Resolves d \<and>
               d < 300000 + timer_lag E (clientId, created w clientId)))
       \<and> (command cfg = None \<or> command cfg = Some [] \<longrightarrow>
            r = Inl (Error ''Command is required'') \<and> w' = w)
       \<and> (\<forall>cmd d m. command cfg = Some cmd \<and> cmd \<noteq> [] \<and>
               connect E (clientId, created w clientId) = Rejects d m \<and>
               d < 300000 + timer_lag E (clientId, created w clientId) \<longrightarrow>
            r = Inl (Error m))
       \<and> (\<forall>cmd. command cfg = Some cmd \<and> cmd \<noteq> [] \<and>
               (connect E (clientId, created w clientId) = NeverSettles
                \<or> (\<exists>d. connect E (clientId, created w clientId) = Resolves d \<and>
                         300000 + timer_lag E (clientId, created w clientId) \<le> d)
                \<or> (\<exists>d m. connect E (clientId, created w clientId) = Rejects d m \<and>
                         300000 + timer_lag E (clientId, created w clientId) \<le> d)) \<longrightarrow>
            r = Inl (Error (''Connection timeout after ''
                   @ show_nat (300000 + timer_lag E (clientId, created w clientId))
                   @ ''ms. Client: '' @ clientId @ '', Command: '' @ cmd @ '' ''
                   @ join '' '' (case args cfg of None \<Rightarrow> [] | Some a \<Rightarrow> a))))"
proof (intro conjI)
  show "\<forall>e. r = Inl e \<longrightarrow> clients w' = clients w \<and>
            (\<exists>evs. events w' = events w @ evs \<and> (\<forall>i h. ClientsSet i h \<notin> set evs))"
    using assms
    by (auto simp: startClient_def startClient_begin_def race_def Let_def
        split: option.splits if_splits settled.splits connect_outcome.splits)
  show "(\<exists>s. r = Inr s) \<longleftrightarrow>
            (\<exists>cmd d. command cfg = Some cmd \<and> cmd \<noteq> [] \<and>
               connect E (clientId, created w clientId) = Resolves d \<and>
               d < 300000 + timer_lag E (clientId, created w clientId))"
    using assms
    by (auto simp: startClient_def startClient_begin_def race_def Let_def
        split: option.splits if_splits settled.splits connect_outcome.splits)
  show "command cfg = None \<or> command cfg = Some [] \<longrightarrow>
            r = Inl (Error ''Command is required'') \<and> w' = w"
    using assms by (auto simp: startClient_def startClient_begin_def Let_def)
  show "\<forall>cmd d m. command cfg = Some cmd \<and> cmd \<noteq> [] \<and>
               connect E (clientId, created w clientId) = Rejects d m \<and>
               d < 300000 + timer_lag E (clientId, created w clientId) \<longrightarrow>
            r = Inl (Error m)"
    using assms by (auto simp: startClient_def startClient_begin_def race_def Let_def)
  show "\<forall>cmd. command cfg = Some cmd \<and> cmd \<noteq> [] \<and>
               (connect E (clientId, created w clientId) = NeverSettles
                \<or> (\<exists>d. connect E (clientId, created w clientId) = Resolves d \<and>
                         300000 + timer_lag E (clientId, created w clientId) \<le> d)
                \<or> (\<exists>d m. connect E (clientId, created w clientId) = Rejects d m \<and>
                         300000 + timer_lag E (clientId, created w clientId) \<le> d)) \<longrightarrow>
            r = Inl (Error (''Connection timeout after ''
                   @ show_nat (300000 + timer_lag E (clientId, created w clientId))
                   @ ''ms. Client: '' @ clientId @ '', Command: '' @ cmd @ '' ''
                   @ join '' '' (case args cfg of None \<Rightarrow> [] | Some a \<Rightarrow> a)))"
    using assms
    by (auto simp: startClient_def startClient_begin_def race_def timeout_message_def Let_def)
qed

theorem startClient_failure_leaves_registry_witness:
  "command demo_config = Some ''npx''
   \<and> connect demo_env (''bad'', created demo_world ''bad'') = Rejects 40 ''spawn ENOENT''
   \<and> fst (startClient demo_env ''bad'' demo_config demo_world) = Inl (Error ''spawn ENOENT'')
   \<and> clients (snd (startClient demo_env ''bad'' demo_config demo_world)) = clients demo_world
   \<and> command (demo_config\<lparr>command := Some []\<rparr>) = Some []
   \<and> startClient demo_env ''a'' (demo_config\<lparr>command := Some []\<rparr>) demo_world
       = (Inl (Error ''Command is required''), demo_world)
   \<and> connect demo_env (''slow'', created demo_world ''slow'') = NeverSettles
   \<and> fst (startClient demo_env ''slow'' demo_config demo_world)
       = Inl (Error ''Connection timeout after 300003ms. Client: slow, Command: npx -y srv'')
   \<and> clients (snd (startClient demo_env ''slow'' demo_config demo_world)) = clients demo_world"
proof -
  have cmd: "command demo_config = Some ''npx''" "''npx'' \<noteq> []"
    by (simp_all add: demo_config_def)
  have bad: "connect demo_env (''bad'', created demo_world ''bad'') = Rejects 40 ''spawn ENOENT''"
    "(40::nat) < 300000 + timer_lag demo_env (''bad'', created demo_world ''bad'')"
    by (simp_all add: demo_env_def)
  have slow: "connect demo_env (''slow'', created demo_world ''slow'') = NeverSettles"
    by (simp add: demo_env_def)
  have none: "command (demo_config\<lparr>command := Some []\<rparr>) = Some []"
    by simp
  have lag: "timer_lag demo_env (''slow'', created demo_world ''slow'') = 3"
    by (simp add: demo_env_def)
  have digits: "show_nat 300003 = ''300003''"
    by (simp add: show_nat.simps)
  have arg: "args demo_config = Some [''-y'', ''srv'']"
    by (simp add: demo_config_def)
  note b = startClient_failure_leaves_registry [OF surjective_pairing, of demo_env "''bad''" demo_config demo_world]
  note n = startClient_failure_leaves_registry [OF surjective_pairing, of demo_env "''a''" "demo_config\<lparr>command := Some []\<rparr>" demo_world]
  note s = startClient_failure_leaves_registry [OF surjective_pairing, of demo_env "''slow''" demo_config demo_world]
  have b1: "fst (startClient demo_env ''bad'' demo_config demo_world) = Inl (Error ''spawn ENOENT'')"
    using b cmd bad by blast
  then have b2: "clients (snd (startClient demo_env ''bad'' demo_config demo_world)) = clients demo_world"
    using b by blast
  have n1: "startClient demo_env ''a'' (demo_config\<lparr>command := Some []\<rparr>) demo_world
       = (Inl (Error ''Command is required''), demo_world)"
    using n none by (metis prod.collapse)
  have "fst (startClient demo_env ''slow'' demo_config demo_world)
       = Inl (Error (''Connection timeout after ''
                   @ show_nat (300000 + timer_lag demo_env (''slow'', created demo_world ''slow''))
                   @ ''ms. Client: '' @ ''slow'' @ '', Command: '' @ ''npx'' @ '' ''
                   @ join '' '' (case args demo_config of None \<Rightarrow> [] | Some a \<Rightarrow> a)))"
    using s cmd slow by blast
  then have s1: "fst (startClient demo_env ''slow'' demo_config demo_world)
       = Inl (Error ''Connection timeout after 300003ms. Client: slow, Command: npx -y srv'')"
    by (simp add: lag digits arg)
  then have s2: "clients (snd (startClient demo_env ''slow'' demo_config demo_world)) = clients demo_world"
    using s by blast
  show ?thesis
    using cmd(1) bad(1) b1 b2 none n1 slow s1 s2 by (simp only: simp_thms)
qed

text \<open>
  Claim C5. When the connect promise never settles, \<open>startClient\<close> fails when the timer
  of 300000 ms runs; the message of the error holds the elapsed time measured then, the
  client id, the command and the arguments. The new client is only created and connected
  (no \<open>close\<close> is called on it) and the registry is untouched.
\<close>

theorem connect_timeout:
  assumes "command cfg = Some cmd" and "cmd \<noteq> []"
    and "connect E (clientId, created w clientId) = NeverSettles"
  shows "startClient E clientId cfg w =
       (Inl (Error (''Connection timeout after '' @ show_nat (300000 + timer_lag E (clientId, created w clientId))
                @ ''ms. Client: '' @ clientId @ '', Command: '' @ cmd @ '' ''
                @ join '' '' (case args cfg of None \<Rightarrow> [] | Some a \<Rightarrow> a))),
        w\<lparr>events := events w @
             [TransportCreated (clientId, created w clientId)
                \<lparr>sp_command = cmd, sp_args = (case args cfg of None \<Rightarrow> [] | Some a \<Rightarrow> a),
                 sp_env = transport_env E (case env cfg of None \<Rightarrow> [] | Some e \<Rightarrow> e)\<rparr>,
              ConnectCalled (clientId, created w clientId)],
          created := (created w)(clientId := Suc (created w clientId)),
          now := now w + (300000 + timer_lag E (clientId, created w clientId))\<rparr>)"
  using assms
  by (simp add: startClient_def startClient_begin_def race_def Let_def timeout_message_def)

theorem connect_timeout_witness:
  "command demo_config = Some ''npx'' \<and> ''npx'' \<noteq> [] 
   \<and> connect demo_env (''slow'', created demo_world ''slow'') = NeverSettles
   \<and> fst (startClient demo_env ''slow'' demo_config demo_world)
       = Inl (Error ''Connection timeout after 300003ms. Client: slow, Command: npx -y srv'')
   \<and> clients (snd (startClient demo_env ''slow'' demo_config demo_world)) ''slow'' = None
   \<and> now (snd (startClient demo_env ''slow'' demo_config demo_world)) = 301003"
proof -
  have a: "command demo_config = Some ''npx''" by (simp add: demo_config_def)
  have b: "''npx'' \<noteq> []" by simp
  have c: "connect demo_env (''slow'', created demo_world ''slow'') = NeverSettles"
    by (simp add: demo_env_def)
  have d: "show_nat 300003 = ''300003''" by (simp add: show_nat.simps)
  have e: "timer_lag demo_env (''slow'', created demo_world ''slow'') = 3" by (simp add: demo_env_def)
  show ?thesis
    using connect_timeout [OF a b c] a c
    by (simp add: d e) (simp add: demo_config_def demo_world_def)
qed

text \<open>
  Claim C7. The transport is built with \<open>env: undefined\<close> when the configuration has
  no \<open>env\<close> or an empty one, and otherwise with the spread of the default environment
  and the caller's properties: every key of the caller has the caller's value, every other
  key the default one.
\<close>

theorem transport_environment:
  assumes "startClient_begin E clientId cfg w = (Awaiting i c h tr t0, w')"
  shows "TransportCreated h tr \<in> set (events w')
     \<and> (env cfg = None \<or> env cfg = Some [] \<longrightarrow> sp_env tr = None)
     \<and> (\<forall>kvs. env cfg = Some kvs \<and> kvs \<noteq> [] \<longrightarrow>
           sp_env tr = Some (spread (getDefaultEnvironment E) kvs)
           \<and> (distinct (map fst kvs) \<longrightarrow>
                map_of (spread (getDefaultEnvironment E) kvs)
                  = map_of (getDefaultEnvironment E) ++ map_of kvs))"
  using assms
  by (auto simp: startClient_begin_def transport_env_def Let_def map_of_spread
      split: option.splits if_splits)

theorem transport_environment_witness:
  "fst (startClient_begin demo_env ''a'' demo_config demo_world)
     = Awaiting ''a'' demo_config (''a'', 0)
         \<lparr>sp_command = ''npx'', sp_args = [''-y'', ''srv''],
          sp_env = Some [(''HOME'', ''/root''), (''PATH'', ''/usr/bin''), (''B'', ''2''), (''A'', ''1'')]\<rparr> 1000
   \<and> distinct (map fst [(''B'', ''2''), (''A'', ''1'')])
   \<and> map_of (spread (getDefaultEnvironment demo_env) [(''B'', ''2''), (''A'', ''1'')])
        = map_of (getDefaultEnvironment demo_env) ++ map_of [(''B'', ''2''), (''A'', ''1'')]
   \<and> fst (startClient_begin demo_env ''a'' (demo_config\<lparr>env := Some []\<rparr>) demo_world)
        = Awaiting ''a'' (demo_config\<lparr>env := Some []\<rparr>) (''a'', 0)
            \<lparr>sp_command = ''npx'', sp_args = [''-y'', ''srv''], sp_env = None\<rparr> 1000"
proof -
  let ?kvs = "[(''B'', ''2''), (''A'', ''1'')] :: (string \<times> string) list"
  let ?tr = "\<lparr>sp_command = ''npx'', sp_args = [''-y'', ''srv''],
              sp_env = Some [(''HOME'', ''/root''), (''PATH'', ''/usr/bin''), (''B'', ''2''), (''A'', ''1'')]\<rparr>"
  have run: "startClient_begin demo_env ''a'' demo_config demo_world
      = (Awaiting ''a'' demo_config (''a'', 0) ?tr 1000,
         snd (startClient_begin demo_env ''a'' demo_config demo_world))"
    by (simp add: startClient_begin_def Let_def transport_env_def spread_def
        demo_env_def demo_config_def demo_world_def)
  have e: "env demo_config = Some ?kvs \<and> ?kvs \<noteq> []"
    by (simp add: demo_config_def)
  have d: "distinct (map fst ?kvs)" by simp
  have first: "map_of (spread (getDefaultEnvironment demo_env) ?kvs)
             = map_of (getDefaultEnvironment demo_env) ++ map_of ?kvs"
    using transport_environment [OF run] e d by blast
  let ?cb = "demo_config\<lparr>env := Some []\<rparr>"
  let ?trb = "\<lparr>sp_command = ''npx'', sp_args = [''-y'', ''srv''], sp_env = transport_env demo_env []\<rparr>"
  have run0: "startClient_begin demo_env ''a'' ?cb demo_world
      = (Awaiting ''a'' ?cb (''a'', 0) ?trb 1000, snd (startClient_begin demo_env ''a'' ?cb demo_world))"
    by (simp add: startClient_begin_def Let_def demo_config_def demo_world_def)
  have "env ?cb = Some []" by simp
  with transport_environment [OF run0] have "sp_env ?trb = None" by blast
  then have second: "?trb = \<lparr>sp_command = ''npx'', sp_args = [''-y'', ''srv''], sp_env = None\<rparr>"
    by simp
  show ?thesis
  proof -
    have "fst (startClient_begin demo_env ''a'' demo_config demo_world) = Awaiting ''a'' demo_config (''a'', 0) ?tr 1000"
      by (subst run) (rule fst_conv)
    moreover have "fst (startClient_begin demo_env ''a'' ?cb demo_world)
        = Awaiting ''a'' ?cb (''a'', 0) \<lparr>sp_command = ''npx'', sp_args = [''-y'', ''srv''], sp_env = None\<rparr> 1000"
      by (subst run0) (simp only: fst_conv second)
    ultimately show ?thesis
      using first d by (simp only: simp_thms)
  qed
qed

subsection \<open>DELETE /clients/:id, POST /restart/:id and unknown ids\<close>

text \<open>
  Claim C4, amended. \<open>DELETE /clients/:id\<close> on an existing entry calls \<open>close\<close>; when
  the promise resolves the entry is removed and the answer is 200; when it is rejected the
  answer is 500 with the message of the rejection and the registry keeps the entry
  (\<open>clients.delete\<close> comes after the \<open>await\<close>, inside the same \<open>try\<close>).
\<close>

theorem delete_client_removes_after_close:
  assumes "clients w i = Some e" and "delete_client E i w = (resp, w')"
  shows "(close E (client e) = Closed \<longrightarrow>
            resp = (200, MessageOnly ''Client deleted successfully'')
            \<and> clients w' = (clients w)(i := None)
            \<and> events w' = events w @ [CloseCalled (client e), ClientsDelete i])
       \<and> (\<forall>m. close E (client e) = CloseRejects m \<longrightarrow>
            resp = (500, ErrorDetails ''Failed to delete client'' m)
            \<and> clients w' = clients w
            \<and> events w' = events w @ [CloseCalled (client e)])"
  using assms by (auto simp: delete_client_def Let_def split: close_outcome.splits)

theorem delete_client_close_rejected_counterexample:
  "clients (demo_running ''stuck'' demo_config) ''stuck'' = Some (demo_entry ''stuck'' demo_config)
   \<and> close demo_env (client (demo_entry ''stuck'' demo_config)) = CloseRejects ''close failed''
   \<and> fst (delete_client demo_env ''stuck'' (demo_running ''stuck'' demo_config))
       = (500, ErrorDetails ''Failed to delete client'' ''close failed'')
   \<and> clients (snd (delete_client demo_env ''stuck'' (demo_running ''stuck'' demo_config))) ''stuck''
       = Some (demo_entry ''stuck'' demo_config)"
  by (simp add: delete_client_def Let_def demo_running_def demo_entry_def demo_env_def)

theorem delete_client_removes_after_close_witness:
  "clients (demo_running ''a'' demo_config) ''a'' = Some (demo_entry ''a'' demo_config)
   \<and> close demo_env (client (demo_entry ''a'' demo_config)) = Closed
   \<and> fst (delete_client demo_env ''a'' (demo_running ''a'' demo_config))
       = (200, MessageOnly ''Client deleted successfully'')
   \<and> clients (snd (delete_client demo_env ''a'' (demo_running ''a'' demo_config))) ''a'' = None
   \<and> clients (demo_running ''stuck'' demo_config) ''stuck'' = Some (demo_entry ''stuck'' demo_config)
   \<and> close demo_env (client (demo_entry ''stuck'' demo_config)) = CloseRejects ''close failed''
   \<and> clients (snd (delete_client demo_env ''stuck'' (demo_running ''stuck'' demo_config)))
       = clients (demo_running ''stuck'' demo_config)"
proof -
  have a: "clients (demo_running ''a'' demo_config) ''a'' = Some (demo_entry ''a'' demo_config)"
    by (simp add: demo_running_def)
  have ca: "close demo_env (client (demo_entry ''a'' demo_config)) = Closed"
    by (simp add: demo_env_def demo_entry_def)
  have s: "clients (demo_running ''stuck'' demo_config) ''stuck'' = Some (demo_entry ''stuck'' demo_config)"
    by (simp add: demo_running_def)
  have cs: "close demo_env (client (demo_entry ''stuck'' demo_config)) = CloseRejects ''close failed''"
    by (simp add: demo_env_def demo_entry_def)
  note ta = delete_client_removes_after_close [OF a surjective_pairing, of demo_env]
  note ts = delete_client_removes_after_close [OF s surjective_pairing, of demo_env]
  show ?thesis
    using ta ts a ca s cs by simp
qed

text \<open>
  Claim C8, amended. On an id without an entry, \<open>/restart/:id\<close> and
  \<open>DELETE /clients/:id\<close> answer 404 \<open>Client not found\<close>, and so does
  \<open>/clients/:id/call_tools\<close> when the request names a tool; without a tool name it
  answers 400 \<open>Tool name is required\<close>, the check on the name coming first. In every
  case the world is left as it was.
\<close>

theorem unknown_id_rejected:
  assumes "clients w i = None"
  shows "post_restart E i w = ((404, ErrorOnly ''Client not found''), w)
       \<and> delete_client E i w = ((404, ErrorOnly ''Client not found''), w)
       \<and> (\<forall>n. name = Some n \<and> n \<noteq> [] \<longrightarrow>
            post_call_tools E i name toolArgs w = ((404, ErrorOnly ''Client not found''), w))
       \<and> (name = None \<or> name = Some [] \<longrightarrow>
            post_call_tools E i name toolArgs w = ((400, ErrorOnly ''Tool name is required''), w))"
  using assms
  by (auto simp: post_restart_def delete_client_def post_call_tools_def split: option.splits)

theorem unknown_id_without_tool_name_counterexample:
  "clients demo_world ''ghost'' = None
   \<and> post_call_tools demo_env ''ghost'' None Absent demo_world
       = ((400, ErrorOnly ''Tool name is required''), demo_world)
   \<and> post_call_tools demo_env ''ghost'' (Some []) (Truthy ''{}'') demo_world
       = ((400, ErrorOnly ''Tool name is required''), demo_world)"
  by (simp add: post_call_tools_def demo_world_def)

theorem unknown_id_rejected_witness:
  "clients demo_world ''ghost'' = None
   \<and> post_restart demo_env ''ghost'' demo_world = ((404, ErrorOnly ''Client not found''), demo_world)
   \<and> delete_client demo_env ''ghost'' demo_world = ((404, ErrorOnly ''Client not found''), demo_world)
   \<and> post_call_tools demo_env ''ghost'' (Some ''echo'') Absent demo_world
       = ((404, ErrorOnly ''Client not found''), demo_world)
   \<and> post_call_tools demo_env ''ghost'' None Absent demo_world
       = ((400, ErrorOnly ''Tool name is required''), demo_world)"
proof -
  have a: "clients demo_world ''ghost'' = None" by (simp add: demo_world_def)
  have n: "''echo'' \<noteq> []" by simp
  show ?thesis
    using unknown_id_rejected [OF a, of demo_env "Some ''echo''" Absent]
      unknown_id_rejected [OF a, of demo_env None Absent] a n
    by simp
qed

lemma startClient_events:
  assumes "command cfg = Some cmd" and "cmd \<noteq> []"
  shows "\<exists>tr evs. events (snd (startClient E i cfg w)) =
           events w @ TransportCreated (i, created w i) tr # ConnectCalled (i, created w i) # evs"
  using assms
  by (auto simp: startClient_def startClient_begin_def Let_def split: settled.splits)

lemma post_restart_closed:
  assumes "clients w i = Some e" and "close E (client e) = Closed"
  shows "post_restart E i w =
             (case startClient E i (config e)
                     (w\<lparr>clients := (clients w)(i := None),
                        events := events w @ [CloseCalled (client e), ClientsDelete i]\<rparr>) of
                (Inr r, w3) \<Rightarrow> ((200, Restarted (''Client '' @ i @ '' restarted successfully'') r), w3)
              | (Inl er, w3) \<Rightarrow> ((500, ErrorDetails ''Failed to restart client'' (message er)), w3))"
  using assms by (simp add: post_restart_def Let_def)

lemma post_restart_rejected:
  assumes "clients w i = Some e" and "close E (client e) = CloseRejects m"
  shows "post_restart E i w = ((500, ErrorDetails ''Failed to restart client'' m),
                                 w\<lparr>events := events w @ [CloseCalled (client e)]\<rparr>)"
  using assms by (simp add: post_restart_def Let_def)

text \<open>
  Claim C9, amended. \<open>/restart/:id\<close> on an existing entry calls \<open>close\<close> and awaits it.
  When the promise resolves, the entry is deleted and \<open>startClient\<close> runs with the
  stored configuration, with no comparison of configurations: a stored configuration with a
  command always gets a new transport and a new client. When the promise is rejected the
  answer is 500, the entry stays and nothing is started.
\<close>

theorem restart_after_close:
  assumes "clients w i = Some e"
  shows "(close E (client e) = Closed \<longrightarrow>
           post_restart E i w =
             (case startClient E i (config e)
                     (w\<lparr>clients := (clients w)(i := None),
                        events := events w @ [CloseCalled (client e), ClientsDelete i]\<rparr>) of
                (Inr r, w3) \<Rightarrow> ((200, Restarted (''Client '' @ i @ '' restarted successfully'') r), w3)
              | (Inl er, w3) \<Rightarrow> ((500, ErrorDetails ''Failed to restart client'' (message er)), w3)))
      \<and> (\<forall>cmd. close E (client e) = Closed \<and> command (config e) = Some cmd \<and> cmd \<noteq> [] \<longrightarrow>
           (\<exists>tr evs. events (snd (post_restart E i w)) =
              events w @ CloseCalled (client e) # ClientsDelete i
                # TransportCreated (i, created w i) tr # ConnectCalled (i, created w i) # evs))
      \<and> (\<forall>m. close E (client e) = CloseRejects m \<longrightarrow>
           post_restart E i w = ((500, ErrorDetails ''Failed to restart client'' m),
                                 w\<lparr>events := events w @ [CloseCalled (client e)]\<rparr>))"
proof (intro conjI allI impI)
  assume "close E (client e) = Closed"
  then show "post_restart E i w =
             (case startClient E i (config e)
                     (w\<lparr>clients := (clients w)(i := None),
                        events := events w @ [CloseCalled (client e), ClientsDelete i]\<rparr>) of
                (Inr r, w3) \<Rightarrow> ((200, Restarted (''Client '' @ i @ '' restarted successfully'') r), w3)
              | (Inl er, w3) \<Rightarrow> ((500, ErrorDetails ''Failed to restart client'' (message er)), w3))"
    by (rule post_restart_closed [OF assms])
next
  fix cmd
  let ?w2 = "w\<lparr>clients := (clients w)(i := None),
               events := events w @ [CloseCalled (client e), ClientsDelete i]\<rparr>"
  assume h: "close E (client e) = Closed \<and> command (config e) = Some cmd \<and> cmd \<noteq> []"
  then have "snd (post_restart E i w) = snd (startClient E i (config e) ?w2)"
    by (simp add: post_restart_closed [OF assms] split: prod.splits sum.splits)
  moreover obtain tr evs where "events (snd (startClient E i (config e) ?w2)) =
      events ?w2 @ TransportCreated (i, created ?w2 i) tr # ConnectCalled (i, created ?w2 i) # evs"
    using startClient_events h by blast
  ultimately show "\<exists>tr evs. events (snd (post_restart E i w)) =
              events w @ CloseCalled (client e) # ClientsDelete i
                # TransportCreated (i, created w i) tr # ConnectCalled (i, created w i) # evs"
    by simp
next
  fix m
  assume "close E (client e) = CloseRejects m"
  then show "post_restart E i w = ((500, ErrorDetails ''Failed to restart client'' m),
                                 w\<lparr>events := events w @ [CloseCalled (client e)]\<rparr>)"
    by (rule post_restart_rejected [OF assms])
qed

theorem restart_close_rejected_counterexample:
  "clients (demo_running ''stuck'' demo_config) ''stuck'' = Some (demo_entry ''stuck'' demo_config)
   \<and> fst (post_restart demo_env ''stuck'' (demo_running ''stuck'' demo_config))
       = (500, ErrorDetails ''Failed to restart client'' ''close failed'')
   \<and> clients (snd (post_restart demo_env ''stuck'' (demo_running ''stuck'' demo_config))) ''stuck''
       = Some (demo_entry ''stuck'' demo_config)
   \<and> events (snd (post_restart demo_env ''stuck'' (demo_running ''stuck'' demo_config)))
       = [CloseCalled (''stuck'', 0)]"
  by (simp add: post_restart_def Let_def demo_running_def demo_entry_def demo_env_def)

theorem restart_after_close_witness:
  "clients (demo_running ''a'' demo_config) ''a'' = Some (demo_entry ''a'' demo_config)
   \<and> close demo_env (client (demo_entry ''a'' demo_config)) = Closed
   \<and> command (config (demo_entry ''a'' demo_config)) = Some ''npx''
   \<and> fst (post_restart demo_env ''a'' (demo_running ''a'' demo_config))
       = (200, Restarted ''Client a restarted successfully''
                 \<lparr>started_id = ''a'', started_message = ''MCP client started successfully''\<rparr>)
   \<and> take 4 (events (snd (post_restart demo_env ''a'' (demo_running ''a'' demo_config))))
       = [CloseCalled (''a'', 0), ClientsDelete ''a'',
          TransportCreated (''a'', 1)
            \<lparr>sp_command = ''npx'', sp_args = [''-y'', ''srv''],
             sp_env = Some [(''HOME'', ''/root''), (''PATH'', ''/usr/bin''), (''B'', ''2''), (''A'', ''1'')]\<rparr>,
          ConnectCalled (''a'', 1)]
   \<and> close demo_env (client (demo_entry ''stuck'' demo_config)) = CloseRejects ''close failed''
   \<and> post_restart demo_env ''stuck'' (demo_running ''stuck'' demo_config)
       = ((500, ErrorDetails ''Failed to restart client'' ''close failed''),
          (demo_running ''stuck'' demo_config)
            \<lparr>events := events (demo_running ''stuck'' demo_config) @ [CloseCalled (client (demo_entry ''stuck'' demo_config))]\<rparr>)"
proof -
  have a: "clients (demo_running ''a'' demo_config) ''a'' = Some (demo_entry ''a'' demo_config)"
    by (simp add: demo_running_def)
  have ca: "close demo_env (client (demo_entry ''a'' demo_config)) = Closed"
    by (simp add: demo_env_def demo_entry_def)
  have cmd: "command (config (demo_entry ''a'' demo_config)) = Some ''npx''"
    by (simp add: demo_entry_def demo_config_def)
  have s: "clients (demo_running ''stuck'' demo_config) ''stuck'' = Some (demo_entry ''stuck'' demo_config)"
    by (simp add: demo_running_def)
  have cs: "close demo_env (client (demo_entry ''stuck'' demo_config)) = CloseRejects ''close failed''"
    by (simp add: demo_env_def demo_entry_def)
  have run: "fst (startClient demo_env ''a'' (config (demo_entry ''a'' demo_config))
        ((demo_running ''a'' demo_config)\<lparr>clients := (clients (demo_running ''a'' demo_config))(''a'' := None),
           events := events (demo_running ''a'' demo_config) @ [CloseCalled (client (demo_entry ''a'' demo_config)), ClientsDelete ''a'']\<rparr>))
      = Inr \<lparr>started_id = ''a'', started_message = ''MCP client started successfully''\<rparr>"
    by (simp add: startClient_def startClient_begin_def race_def Let_def
        demo_env_def demo_entry_def demo_config_def demo_running_def)
  have ev: "take 4 (events (snd (post_restart demo_env ''a'' (demo_running ''a'' demo_config))))
       = [CloseCalled (''a'', 0), ClientsDelete ''a'',
          TransportCreated (''a'', 1)
            \<lparr>sp_command = ''npx'', sp_args = [''-y'', ''srv''],
             sp_env = Some [(''HOME'', ''/root''), (''PATH'', ''/usr/bin''), (''B'', ''2''), (''A'', ''1'')]\<rparr>,
          ConnectCalled (''a'', 1)]"
    by (simp add: post_restart_def startClient_def startClient_begin_def race_def Let_def
        transport_env_def spread_def demo_env_def demo_entry_def demo_config_def demo_running_def)
  note ta = restart_after_close [OF a, of demo_env]
  note ts = restart_after_close [OF s, of demo_env]
  have "fst (post_restart demo_env ''a'' (demo_running ''a'' demo_config))
       = (200, Restarted ''Client a restarted successfully''
                 \<lparr>started_id = ''a'', started_message = ''MCP client started successfully''\<rparr>)"
    using ta ca run by (auto split: prod.splits sum.splits)
  moreover have "post_restart demo_env ''stuck'' (demo_running ''stuck'' demo_config)
       = ((500, ErrorDetails ''Failed to restart client'' ''close failed''),
          (demo_running ''stuck'' demo_config)
            \<lparr>events := events (demo_running ''stuck'' demo_config) @ [CloseCalled (client (demo_entry ''stuck'' demo_config))]\<rparr>)"
    using ts cs by blast
  ultimately show ?thesis
    using a ca cmd cs ev by (simp only: simp_thms)
qed

subsection \<open>One entry of POST /start\<close>

lemma same_config_unchanged:
  assumes "wf_config c" and "wf_config c'" and "same_config c c'"
  shows "stringify (config_json c) = stringify (config_json c')"
  using hasConfigChanged_iff [OF assms(1,2)] assms(3) by (simp add: hasConfigChanged_def)

lemma startClient_run:
  "startClient_finish E (fst (startClient_begin E i cfg w)) (snd (startClient_begin E i cfg w)) = startClient E i cfg w"
  by (simp add: startClient_def split: prod.splits)

lemma startClient_begin_unhandled: "unhandled (snd (startClient_begin E i cfg w)) = unhandled w"
  by (simp add: startClient_begin_def Let_def split: option.splits)

lemma startClient_finish_unhandled: "unhandled (snd (startClient_finish E s w)) = unhandled w"
proof (cases s)
  case (Thrown e)
  then show ?thesis by simp
next
  case (Awaiting clientId cfg h tr t0)
  then show ?thesis
    by (cases "race E h clientId (sp_command tr) (sp_args tr)") simp_all
qed

lemma startClient_unhandled: "unhandled (snd (startClient E i cfg w)) = unhandled w"
  by (simp add: startClient_def split_beta startClient_finish_unhandled startClient_begin_unhandled)

lemma start_one_finish_unhandled: "unhandled (snd (start_one_finish E t (res, w))) = unhandled w"
proof (cases t)
  case Returned
  then show ?thesis by simp
next
  case (Pending i s)
  have "snd (start_one_finish E (Pending i s) (res, w)) = snd (startClient_finish E s w)"
    by (cases "startClient_finish E s w") (auto split: sum.splits)
  with Pending show ?thesis by (simp add: startClient_finish_unhandled)
qed

lemma start_one_unchanged:
  assumes "clients w i = Some e" and "\<not> hasConfigChanged (config e) cfg" and "unhandled w = []"
  shows "start_one E (i, cfg) (res, w) = Some (res, w)"
  using assms by (simp add: start_one_def start_one_begin_def)

lemma start_one_changed:
  assumes "clients w i = Some e" and "hasConfigChanged (config e) cfg"
  shows "start_one E (i, cfg) (res, w) =
     (if unhandled w @ dropped (close E (client e)) = []
      then Some (case startClient E i cfg
                        (w\<lparr>events := events w @ [CloseCalled (client e)],
                           unhandled := unhandled w @ dropped (close E (client e))\<rparr>) of
                   (Inr r, w') \<Rightarrow> (res\<lparr>success := success res @ [r]\<rparr>, w')
                 | (Inl er, w') \<Rightarrow>
                     (res\<lparr>errors := errors res @ [\<lparr>failure_id = i, failure_error = ''Failed to initialize: '' @ message er\<rparr>]\<rparr>, w'))
      else None)"
  using assms
  by (simp add: start_one_def start_one_begin_def Let_def split_beta startClient_begin_unhandled
      startClient_run [symmetric])

lemma start_one_absent:
  assumes "clients w i = None"
  shows "start_one E (i, cfg) (res, w) =
     (if unhandled w = []
      then Some (case startClient E i cfg w of
                   (Inr r, w') \<Rightarrow> (res\<lparr>success := success res @ [r]\<rparr>, w')
                 | (Inl er, w') \<Rightarrow>
                     (res\<lparr>errors := errors res @ [\<lparr>failure_id = i, failure_error = ''Failed to initialize: '' @ message er\<rparr>]\<rparr>, w'))
      else None)"
  using assms
  by (simp add: start_one_def start_one_begin_def Let_def split_beta startClient_begin_unhandled
      startClient_run [symmetric])

lemma start_one_begin_unhandled:
  "\<exists>ms. unhandled (snd (start_one_begin E p w)) = unhandled w @ ms"
  by (simp add: start_one_begin_def Let_def split_beta startClient_begin_unhandled split: option.splits)

lemma start_one_returns:
  assumes "start_one E p (res, w) = Some (res1, w1)"
  shows "unhandled w1 = []" and "unhandled w = []"
proof -
  let ?b = "start_one_begin E p w"
  from assms have quiet: "unhandled (snd ?b) = []"
    and w1: "(res1, w1) = start_one_finish E (fst ?b) (res, snd ?b)"
    by (simp_all add: start_one_def split_beta split: if_splits)
  have "unhandled w1 = unhandled (snd (start_one_finish E (fst ?b) (res, snd ?b)))"
    using w1 by (metis snd_conv)
  with quiet show "unhandled w1 = []"
    by (simp add: start_one_finish_unhandled)
  from quiet start_one_begin_unhandled [of E p w] show "unhandled w = []"
    by auto
qed

lemma startClient_ok:
  assumes "startClient E i cfg w = (Inr r, w')"
  shows "r = \<lparr>started_id = i, started_message = ''MCP client started successfully''\<rparr>
       \<and> (\<exists>tr. events w' = events w @ [TransportCreated (i, created w i) tr, ConnectCalled (i, created w i), ClientsSet i (i, created w i)])
       \<and> (\<exists>en. clients w' = (clients w)(i \<mapsto> en) \<and> config en = cfg \<and> client en = (i, created w i))"
  using assms
  by (auto simp: startClient_def startClient_begin_def Let_def
      split: option.splits if_splits settled.splits)

text \<open>
  Claim C2. Let the callback of \<open>/start\<close> run for an id and a configuration without
  failing, and then run again for the same id with a configuration that is structurally
  the same (same command, same arguments in the same order, same environment whatever the
  order of its keys). The second run returns at once: results and world are unchanged, so
  nothing is closed and nothing is created. The registry holds an entry for the id, and
  when there was none before the first run, that run has stored it exactly once. What the
  handler takes for a change is exactly a structural difference.
\<close>

theorem idempotent_start:
  assumes "wf_config cfg" and "wf_config cfg'" and "same_config cfg cfg'"
    and "start_one E (i, cfg) (res, w) = Some (res1, w1)"
    and "errors res1 = errors res"
  shows "start_one E (i, cfg') (res1, w1) = Some (res1, w1)
       \<and> (\<exists>e. clients w1 i = Some e \<and> \<not> hasConfigChanged (config e) cfg)
       \<and> (clients w i = None \<longrightarrow>
             (\<exists>h tr. events w1 = events w @ [TransportCreated h tr, ConnectCalled h, ClientsSet i h]))
       \<and> (\<forall>c. wf_config c \<longrightarrow> (hasConfigChanged cfg c \<longleftrightarrow> \<not> same_config cfg c))"
proof -
  have same: "stringify (config_json cfg) = stringify (config_json cfg')"
    by (rule same_config_unchanged [OF assms(1-3)])
  have quiet: "unhandled w1 = []" "unhandled w = []"
    using start_one_returns [OF assms(4)] by simp_all
  have run: "\<exists>e. clients w1 i = Some e \<and> \<not> hasConfigChanged (config e) cfg"
    "\<exists>h tr. events w1 = events w0 @ [TransportCreated h tr, ConnectCalled h, ClientsSet i h]"
    if "(case startClient E i cfg w0 of
           (Inr r, w') \<Rightarrow> (res\<lparr>success := success res @ [r]\<rparr>, w')
         | (Inl e, w') \<Rightarrow>
            (res\<lparr>errors := errors res @ [\<lparr>failure_id = i, failure_error = ''Failed to initialize: '' @ message e\<rparr>]\<rparr>, w'))
        = (res1, w1)" for w0
  proof -
    obtain a b where ab: "startClient E i cfg w0 = (a, b)"
      by (cases "startClient E i cfg w0") blast
    have "\<exists>r. a = Inr r \<and> w1 = b"
    proof (cases a)
      case (Inl er)
      with that ab have "errors res1 = errors res @ [\<lparr>failure_id = i, failure_error = ''Failed to initialize: '' @ message er\<rparr>]"
        by auto
      with assms(5) show ?thesis by simp
    next
      case (Inr r)
      with that ab show ?thesis by auto
    qed
    then obtain r where ok: "startClient E i cfg w0 = (Inr r, w1)"
      using ab by blast
    with startClient_ok [OF ok] show "\<exists>e. clients w1 i = Some e \<and> \<not> hasConfigChanged (config e) cfg"
      "\<exists>h tr. events w1 = events w0 @ [TransportCreated h tr, ConnectCalled h, ClientsSet i h]"
      by (auto simp: hasConfigChanged_def)
  qed
  have started: "\<exists>e. clients w1 i = Some e \<and> \<not> hasConfigChanged (config e) cfg"
  proof (cases "clients w i")
    case None
    with assms(4) quiet(2) run(1) [of w] show ?thesis
      by (simp add: start_one_absent)
  next
    case (Some e)
    show ?thesis
    proof (cases "hasConfigChanged (config e) cfg")
      case True
      let ?w0 = "w\<lparr>events := events w @ [CloseCalled (client e)],
                   unhandled := unhandled w @ dropped (close E (client e))\<rparr>"
      from assms(4) have "(case startClient E i cfg ?w0 of
             (Inr r, w') \<Rightarrow> (res\<lparr>success := success res @ [r]\<rparr>, w')
           | (Inl e, w') \<Rightarrow>
              (res\<lparr>errors := errors res @ [\<lparr>failure_id = i, failure_error = ''Failed to initialize: '' @ message e\<rparr>]\<rparr>, w'))
          = (res1, w1)"
        unfolding start_one_changed [OF Some True] by (simp split: if_splits)
      then show ?thesis by (rule run(1))
    next
      case False
      with Some assms(4) quiet(2) show ?thesis by (auto simp: start_one_unchanged)
    qed
  qed
  have fresh: "clients w i = None \<longrightarrow>
             (\<exists>h tr. events w1 = events w @ [TransportCreated h tr, ConnectCalled h, ClientsSet i h])"
  proof
    assume "clients w i = None"
    with assms(4) quiet(2) run(2) [of w] show "\<exists>h tr. events w1 = events w @ [TransportCreated h tr, ConnectCalled h, ClientsSet i h]"
      by (simp add: start_one_absent)
  qed
  from started obtain e where e: "clients w1 i = Some e" "\<not> hasConfigChanged (config e) cfg"
    by blast
  then have "\<not> hasConfigChanged (config e) cfg'"
    using same by (simp add: hasConfigChanged_def)
  with e(1) have "start_one E (i, cfg') (res1, w1) = Some (res1, w1)"
    using quiet(1) by (rule start_one_unchanged)
  moreover have "\<forall>c. wf_config c \<longrightarrow> (hasConfigChanged cfg c \<longleftrightarrow> \<not> same_config cfg c)"
    using hasConfigChanged_iff [OF assms(1)] by blast
  ultimately show ?thesis using started fresh by blast
qed

theorem idempotent_start_witness:
  "wf_config demo_config
   \<and> wf_config (demo_config\<lparr>env := Some [(''A'', ''1''), (''B'', ''2'')]\<rparr>)
   \<and> same_config demo_config (demo_config\<lparr>env := Some [(''A'', ''1''), (''B'', ''2'')]\<rparr>)
   \<and> clients demo_world ''a'' = None
   \<and> map_option fst (start_one demo_env (''a'', demo_config) (\<lparr>success = [], errors = []\<rparr>, demo_world))
       = Some \<lparr>success = [\<lparr>started_id = ''a'', started_message = ''MCP client started successfully''\<rparr>], errors = []\<rparr>
   \<and> Option.bind (start_one demo_env (''a'', demo_config) (\<lparr>success = [], errors = []\<rparr>, demo_world))
        (start_one demo_env (''a'', demo_config\<lparr>env := Some [(''A'', ''1''), (''B'', ''2'')]\<rparr>))
       = start_one demo_env (''a'', demo_config) (\<lparr>success = [], errors = []\<rparr>, demo_world)
   \<and> wf_config (demo_config\<lparr>args := Some [''srv'', ''-y'']\<rparr>)
   \<and> hasConfigChanged demo_config (demo_config\<lparr>args := Some [''srv'', ''-y'']\<rparr>)"
proof -
  let ?c' = "demo_config\<lparr>env := Some [(''A'', ''1''), (''B'', ''2'')]\<rparr>"
  let ?c'' = "demo_config\<lparr>args := Some [''srv'', ''-y'']\<rparr>"
  let ?run = "start_one demo_env (''a'', demo_config) (\<lparr>success = [], errors = []\<rparr>, demo_world)"
  have wf: "wf_config demo_config" "wf_config ?c'" "wf_config ?c''"
    by (simp_all add: wf_config_def demo_config_def)
  have same: "same_config demo_config ?c'"
    by (auto simp: same_config_def same_env_def demo_config_def)
  have differ: "\<not> same_config demo_config ?c''"
    by (simp add: same_config_def demo_config_def)
  have absent: "clients demo_world ''a'' = None"
    by (simp add: demo_world_def)
  have quiet: "unhandled demo_world = []"
    by (simp add: demo_world_def)
  have "?run \<noteq> None"
    unfolding start_one_absent [OF absent] using quiet by simp
  then obtain res1 w1 where run: "?run = Some (res1, w1)"
    by (cases ?run) auto
  have res: "map_option fst ?run = Some \<lparr>success = [\<lparr>started_id = ''a'', started_message = ''MCP client started successfully''\<rparr>], errors = []\<rparr>"
    unfolding start_one_absent [OF absent]
    by (simp add: startClient_def startClient_begin_def race_def Let_def
        demo_env_def demo_config_def demo_world_def)
  then have ok: "errors res1 = errors \<lparr>success = [], errors = []\<rparr>"
    by (simp add: run)
  note main = idempotent_start [OF wf(1) wf(2) same run ok]
  have "Option.bind ?run (start_one demo_env (''a'', ?c')) = ?run"
    using main by (simp add: run)
  moreover have "hasConfigChanged demo_config ?c''"
    using main wf(3) differ by blast
  ultimately show ?thesis
    using wf same absent res by (simp only: simp_thms)
qed

lemma replace_after_resolved_close:
  assumes "clients w i = Some e" and "wf_config (config e)" and "wf_config cfg"
    and "\<not> same_config (config e) cfg" and "close E (client e) = Closed" and "unhandled w = []"
  shows "\<exists>res' w' evs. start_one E (i, cfg) (res, w) = Some (res', w')
              \<and> events w' = events w @ CloseCalled (client e) # evs
              \<and> (\<forall>j h. ClientsSet j h \<in> set evs \<longrightarrow> j = i \<and> h = (i, created w i))"
    and "command cfg = Some cmd \<and> cmd \<noteq> [] \<and> connect E (i, created w i) = Resolves d
              \<and> d < 300000 + timer_lag E (i, created w i) \<Longrightarrow>
            \<exists>w' tr en. start_one E (i, cfg) (res, w) =
                Some (res\<lparr>success := success res @ [\<lparr>started_id = i, started_message = ''MCP client started successfully''\<rparr>]\<rparr>, w')
              \<and> events w' = events w @ [CloseCalled (client e), TransportCreated (i, created w i) tr,
                                          ConnectCalled (i, created w i), ClientsSet i (i, created w i)]
              \<and> clients w' = (clients w)(i \<mapsto> en)
              \<and> config en = cfg \<and> client en = (i, created w i)"
proof -
  have changed: "hasConfigChanged (config e) cfg"
    using hasConfigChanged_iff [OF assms(2,3)] assms(4) by simp
  have run: "start_one E (i, cfg) (res, w) =
      Some (case startClient E i cfg (w\<lparr>events := events w @ [CloseCalled (client e)], unhandled := []\<rparr>) of
              (Inr r, w') \<Rightarrow> (res\<lparr>success := success res @ [r]\<rparr>, w')
            | (Inl er, w') \<Rightarrow>
                (res\<lparr>errors := errors res @ [\<lparr>failure_id = i, failure_error = ''Failed to initialize: '' @ message er\<rparr>]\<rparr>, w'))"
    unfolding start_one_changed [OF assms(1) changed] using assms(5,6) by (simp add: dropped_def)
  show "\<exists>res' w' evs. start_one E (i, cfg) (res, w) = Some (res', w')
              \<and> events w' = events w @ CloseCalled (client e) # evs
              \<and> (\<forall>j h. ClientsSet j h \<in> set evs \<longrightarrow> j = i \<and> h = (i, created w i))"
    unfolding run
    by (auto simp: startClient_def startClient_begin_def Let_def
        split: option.splits if_splits settled.splits prod.splits sum.splits)
  show "\<exists>w' tr en. start_one E (i, cfg) (res, w) =
                Some (res\<lparr>success := success res @ [\<lparr>started_id = i, started_message = ''MCP client started successfully''\<rparr>]\<rparr>, w')
              \<and> events w' = events w @ [CloseCalled (client e), TransportCreated (i, created w i) tr,
                                          ConnectCalled (i, created w i), ClientsSet i (i, created w i)]
              \<and> clients w' = (clients w)(i \<mapsto> en)
              \<and> config en = cfg \<and> client en = (i, created w i)"
    if "command cfg = Some cmd \<and> cmd \<noteq> [] \<and> connect E (i, created w i) = Resolves d
              \<and> d < 300000 + timer_lag E (i, created w i)"
    unfolding run using that
    by (simp add: startClient_def startClient_begin_def race_def Let_def) force
qed

text \<open>
  Claim C3 says that a failure of the close does not block the replacement. The code calls
  \<open>close\<close> on the old client before anything is stored, but it drops the promise. When
  the entry's configuration differs structurally from the submitted one and the promise of
  \<open>close\<close> is rejected, the rejection is left without a handler: the callback never
  resumes, the handler sends no response, and the new entry is never stored. (With a close
  that resolves the replacement goes through: \<open>replace_after_resolved_close\<close>.)
\<close>

theorem replace_blocked_by_rejected_close:
  assumes "clients w i = Some e" and "wf_config (config e)" and "wf_config cfg"
    and "\<not> same_config (config e) cfg" and "close E (client e) = CloseRejects m"
  shows "start_one E (i, cfg) (res, w) = None
       \<and> post_start E (Some [(i, cfg)]) w = None
       \<and> unhandled (snd (start_one_begin E (i, cfg) w)) = unhandled w @ [m]
       \<and> (\<exists>evs. events (snd (start_one_begin E (i, cfg) w)) = events w @ CloseCalled (client e) # evs
              \<and> (\<forall>j h. ClientsSet j h \<notin> set evs))
       \<and> clients (snd (start_one_begin E (i, cfg) w)) = clients w"
proof -
  have changed: "hasConfigChanged (config e) cfg"
    using hasConfigChanged_iff [OF assms(2,3)] assms(4) by simp
  have sb: "start_one_begin E (i, cfg) w =
      (Pending i (fst (startClient_begin E i cfg
                        (w\<lparr>events := events w @ [CloseCalled (client e)], unhandled := unhandled w @ [m]\<rparr>))),
       snd (startClient_begin E i cfg
              (w\<lparr>events := events w @ [CloseCalled (client e)], unhandled := unhandled w @ [m]\<rparr>)))"
    using assms(1,5) changed
    by (simp add: start_one_begin_def Let_def split_beta dropped_def)
  have un: "unhandled (snd (start_one_begin E (i, cfg) w)) = unhandled w @ [m]"
    unfolding sb by (simp add: startClient_begin_unhandled)
  have ev: "\<exists>evs. events (snd (start_one_begin E (i, cfg) w)) = events w @ CloseCalled (client e) # evs
              \<and> (\<forall>j h. ClientsSet j h \<notin> set evs)"
    unfolding sb
    by (auto simp: startClient_begin_def Let_def split: option.splits)
  have reg: "clients (snd (start_one_begin E (i, cfg) w)) = clients w"
    unfolding sb by (simp add: startClient_begin_def Let_def split: option.splits)
  have one: "start_one E (i, cfg) (res, w) = None"
    using un by (simp add: start_one_def split_beta)
  have "startBatch E [(i, cfg)] w = None"
    using un by (simp add: startBatch_def split_beta)
  then have post: "post_start E (Some [(i, cfg)]) w = None"
    by (simp add: post_start_def)
  show ?thesis using one post un ev reg by blast
qed

theorem replace_blocked_by_rejected_close_witness:
  "clients (demo_running ''stuck'' demo_config) ''stuck'' = Some (demo_entry ''stuck'' demo_config)
   \<and> wf_config (config (demo_entry ''stuck'' demo_config))
   \<and> wf_config (demo_config\<lparr>args := Some [''srv'', ''-y'']\<rparr>)
   \<and> \<not> same_config (config (demo_entry ''stuck'' demo_config)) (demo_config\<lparr>args := Some [''srv'', ''-y'']\<rparr>)
   \<and> close demo_env (client (demo_entry ''stuck'' demo_config)) = CloseRejects ''close failed''
   \<and> start_one demo_env (''stuck'', demo_config\<lparr>args := Some [''srv'', ''-y'']\<rparr>)
        (\<lparr>success = [], errors = []\<rparr>, demo_running ''stuck'' demo_config) = None
   \<and> post_start demo_env (Some [(''stuck'', demo_config\<lparr>args := Some [''srv'', ''-y'']\<rparr>)])
        (demo_running ''stuck'' demo_config) = None
   \<and> unhandled (snd (start_one_begin demo_env (''stuck'', demo_config\<lparr>args := Some [''srv'', ''-y'']\<rparr>)
        (demo_running ''stuck'' demo_config))) = [''close failed'']"
proof -
  let ?w = "demo_running ''stuck'' demo_config"
  let ?e = "demo_entry ''stuck'' demo_config"
  let ?c = "demo_config\<lparr>args := Some [''srv'', ''-y'']\<rparr>"
  have en: "clients ?w ''stuck'' = Some ?e"
    by (simp add: demo_running_def)
  have wf: "wf_config (config ?e)" "wf_config ?c"
    by (simp_all add: wf_config_def demo_entry_def demo_config_def)
  have differ: "\<not> same_config (config ?e) ?c"
    by (simp add: same_config_def demo_entry_def demo_config_def)
  have cl: "close demo_env (client ?e) = CloseRejects ''close failed''"
    by (simp add: demo_env_def demo_entry_def)
  have quiet: "unhandled ?w = []"
    by (simp add: demo_running_def)
  note main = replace_blocked_by_rejected_close [OF en wf differ cl, of "\<lparr>success = [], errors = []\<rparr>"]
  have un: "unhandled (snd (start_one_begin demo_env (''stuck'', ?c) ?w)) = [''close failed'']"
    using main quiet by simp
  show ?thesis
    using en wf differ cl main un by (simp only: simp_thms)
qed

subsection \<open>The batch of POST /start\<close>

lemma start_one_finish_results:
  "fst (start_one_finish E t (res, w)) =
     \<lparr>success = success res @ success (pushed E t), errors = errors res @ errors (pushed E t)\<rparr>"
proof (cases t)
  case Returned
  then show ?thesis by simp
next
  case (Pending i s)
  show ?thesis
  proof (cases s)
    case (Thrown e)
    with Pending show ?thesis by simp
  next
    case (Awaiting clientId cfg h tr t0)
    with Pending show ?thesis
      by (cases "race E h clientId (sp_command tr) (sp_args tr)") simp_all
  qed
qed

lemma start_one_finish_clients:
  assumes "wf_task t"
  shows "clients (snd (start_one_finish E t (res, w))) j =
     (if task_id t = Some j \<and> stored E t \<noteq> None then stored E t else clients w j)"
proof (cases t)
  case Returned
  then show ?thesis by simp
next
  case (Pending i s)
  show ?thesis
  proof (cases s)
    case (Thrown e)
    with Pending show ?thesis by simp
  next
    case (Awaiting clientId cfg h tr t0)
    with Pending assms show ?thesis
      by (cases "race E h clientId (sp_command tr) (sp_args tr)") auto
  qed
qed

lemma finish_all_results:
  "fst (finish_all E ts (res, w)) =
     \<lparr>success = success res @ concat (map (\<lambda>t. success (pushed E t)) ts),
      errors = errors res @ concat (map (\<lambda>t. errors (pushed E t)) ts)\<rparr>"
proof (induction ts arbitrary: res w)
  case Nil
  show ?case by (simp add: finish_all_def)
next
  case (Cons t ts)
  obtain res' w' where step: "start_one_finish E t (res, w) = (res', w')"
    by (cases "start_one_finish E t (res, w)") blast
  have "res' = \<lparr>success = success res @ success (pushed E t), errors = errors res @ errors (pushed E t)\<rparr>"
    using start_one_finish_results [of E t res w] step by simp
  moreover have "fst (finish_all E (t # ts) (res, w)) = fst (finish_all E ts (res', w'))"
    by (simp add: finish_all_def step)
  ultimately show ?case using Cons.IH [of res' w'] by simp
qed

lemma finish_all_clients:
  assumes "\<forall>t\<in>set ts. wf_task t" and "\<forall>t\<in>set ts. task_id t = Some j \<longrightarrow> t = tj"
  shows "clients (snd (finish_all E ts (res, w))) j =
     (if tj \<in> set ts \<and> task_id tj = Some j \<and> stored E tj \<noteq> None then stored E tj else clients w j)"
  using assms
proof (induction ts arbitrary: res w)
  case Nil
  show ?case by (simp add: finish_all_def)
next
  case (Cons t ts)
  obtain res' w' where step: "start_one_finish E t (res, w) = (res', w')"
    by (cases "start_one_finish E t (res, w)") blast
  have wft: "wf_task t" and wfts: "\<forall>t\<in>set ts. wf_task t"
    using Cons.prems(1) by simp_all
  have uniq: "task_id t = Some j \<longrightarrow> t = tj" and uniqs: "\<forall>t\<in>set ts. task_id t = Some j \<longrightarrow> t = tj"
    using Cons.prems(2) by simp_all
  have w': "clients w' j = (if task_id t = Some j \<and> stored E t \<noteq> None then stored E t else clients w j)"
    using start_one_finish_clients [OF wft, of E res w j] by (simp only: step snd_conv)
  have unfold: "finish_all E (t # ts) (res, w) = finish_all E ts (res', w')"
    by (simp add: finish_all_def step)
  have ih: "clients (snd (finish_all E ts (res', w'))) j =
      (if tj \<in> set ts \<and> task_id tj = Some j \<and> stored E tj \<noteq> None then stored E tj else clients w' j)"
    by (rule Cons.IH [OF wfts uniqs])
  show ?case
  proof (cases "tj \<in> set ts \<and> task_id tj = Some j \<and> stored E tj \<noteq> None")
    case True
    then show ?thesis unfolding unfold ih by simp
  next
    case False
    show ?thesis
    proof (cases "task_id t = Some j")
      case True
      with uniq have "t = tj" by blast
      with False True w' show ?thesis unfolding unfold ih by auto
    next
      case no: False
      then have "t \<noteq> tj \<or> task_id tj \<noteq> Some j" by blast
      with False no w' show ?thesis unfolding unfold ih by auto
    qed
  qed
qed


lemma startClient_begin_world:
  "clients (snd (startClient_begin E i cfg w)) = clients w"
  "now (snd (startClient_begin E i cfg w)) = now w"
  "j \<noteq> i \<Longrightarrow> created (snd (startClient_begin E i cfg w)) j = created w j"
  by (simp_all add: startClient_begin_def Let_def split: option.splits)

lemma start_one_begin_world:
  "clients (snd (start_one_begin E p w)) = clients w"
  "now (snd (start_one_begin E p w)) = now w"
  "j \<noteq> fst p \<Longrightarrow> created (snd (start_one_begin E p w)) j = created w j"
  by (simp_all add: start_one_begin_def Let_def split_beta startClient_begin_world split: option.splits)

lemma start_one_begin_task:
  "wf_task (fst (start_one_begin E p w))"
  "task_id (fst (start_one_begin E p w)) = Some j \<Longrightarrow> j = fst p"
  by (auto simp: start_one_begin_def startClient_begin_def Let_def split: option.splits prod.splits if_splits)

lemma startClient_begin_cong:
  assumes "created w1 i = created w2 i" and "now w1 = now w2"
  shows "fst (startClient_begin E i cfg w1) = fst (startClient_begin E i cfg w2)"
  using assms by (simp add: startClient_begin_def Let_def split: option.splits)

lemma start_one_begin_cong:
  assumes "clients w1 (fst p) = clients w2 (fst p)" and "created w1 (fst p) = created w2 (fst p)"
    and "now w1 = now w2"
  shows "fst (start_one_begin E p w1) = fst (start_one_begin E p w2)"
proof (cases "clients w2 (fst p)")
  case None
  with assms(1) have "clients w1 (fst p) = None" by simp
  with None show ?thesis
    using startClient_begin_cong [OF assms(2,3), of E "snd p"]
    by (simp add: start_one_begin_def Let_def split_beta)
next
  case (Some e)
  with assms(1) have e1: "clients w1 (fst p) = Some e" by simp
  let ?v1 = "w1\<lparr>events := events w1 @ [CloseCalled (client e)],
                unhandled := unhandled w1 @ dropped (close E (client e))\<rparr>"
  let ?v2 = "w2\<lparr>events := events w2 @ [CloseCalled (client e)],
                unhandled := unhandled w2 @ dropped (close E (client e))\<rparr>"
  have "fst (startClient_begin E (fst p) (snd p) ?v1) = fst (startClient_begin E (fst p) (snd p) ?v2)"
    by (rule startClient_begin_cong) (simp_all add: assms)
  with Some e1 show ?thesis
    by (simp add: start_one_begin_def Let_def split_beta)
qed

lemma begin_all_clients: "clients (snd (begin_all E ps w)) = clients w"
proof (induction ps arbitrary: w)
  case Nil
  show ?case by simp
next
  case (Cons p ps)
  have "snd (begin_all E (p # ps) w) = snd (begin_all E ps (snd (start_one_begin E p w)))"
    by (simp add: split_beta)
  then show ?case
    using Cons.IH [of "snd (start_one_begin E p w)"] by (simp add: start_one_begin_world)
qed

lemma begin_all_tasks:
  assumes "distinct (map fst ps)" and "clients w' = clients w" and "now w' = now w"
    and "\<forall>p\<in>set ps. created w' (fst p) = created w (fst p)"
  shows "fst (begin_all E ps w') = map (\<lambda>p. fst (start_one_begin E p w)) ps"
  using assms
proof (induction ps arbitrary: w')
  case Nil
  show ?case by simp
next
  case (Cons p ps)
  let ?v = "snd (start_one_begin E p w')"
  have head: "fst (start_one_begin E p w') = fst (start_one_begin E p w)"
    by (rule start_one_begin_cong) (use Cons.prems in simp_all)
  have "fst (begin_all E ps ?v) = map (\<lambda>p. fst (start_one_begin E p w)) ps"
  proof (rule Cons.IH)
    show "distinct (map fst ps)" using Cons.prems(1) by simp
    show "clients ?v = clients w" using Cons.prems(2) by (simp add: start_one_begin_world)
    show "now ?v = now w" using Cons.prems(3) by (simp add: start_one_begin_world)
    show "\<forall>q\<in>set ps. created ?v (fst q) = created w (fst q)"
    proof
      fix q assume q: "q \<in> set ps"
      then have "fst q \<in> set (map fst ps)" by simp
      moreover have "fst p \<notin> set (map fst ps)" using Cons.prems(1) by simp
      ultimately have "fst q \<noteq> fst p" by metis
      then have "created ?v (fst q) = created w' (fst q)"
        by (rule start_one_begin_world)
      with Cons.prems(4) q show "created ?v (fst q) = created w (fst q)" by simp
    qed
  qed
  moreover have "fst (begin_all E (p # ps) w') = fst (start_one_begin E p w') # fst (begin_all E ps ?v)"
    by (simp add: split_beta)
  ultimately show ?case using head by simp
qed

lemma set_schedule: "set (schedule E ts) = set ts"
  by (auto simp: schedule_def)

lemma pushed_ids:
  assumes "wf_task t"
  shows "r \<in> set (success (pushed E t)) \<Longrightarrow> task_id t = Some (started_id r)"
    and "f \<in> set (errors (pushed E t)) \<Longrightarrow> task_id t = Some (failure_id f)"
proof -
  show "task_id t = Some (started_id r)" if "r \<in> set (success (pushed E t))"
  proof (cases t)
    case Returned
    with that show ?thesis by simp
  next
    case (Pending i s)
    show ?thesis
    proof (cases s)
      case (Thrown e)
      with Pending that show ?thesis by simp
    next
      case (Awaiting clientId cfg h tr t0)
      with Pending that assms show ?thesis
        by (cases "race E h clientId (sp_command tr) (sp_args tr)") auto
    qed
  qed
  show "task_id t = Some (failure_id f)" if "f \<in> set (errors (pushed E t))"
  proof (cases t)
    case Returned
    with that show ?thesis by simp
  next
    case (Pending i s)
    show ?thesis
    proof (cases s)
      case (Thrown e)
      with Pending that show ?thesis by simp
    next
      case (Awaiting clientId cfg h tr t0)
      with Pending that assms show ?thesis
        by (cases "race E h clientId (sp_command tr) (sp_args tr)") auto
    qed
  qed
qed


lemma startBatch_unfold:
  "startBatch E servers w =
     (if unhandled (snd (begin_all E servers w)) = []
      then Some (finish_all E (schedule E (fst (begin_all E servers w)))
                   (\<lparr>success = [], errors = []\<rparr>, snd (begin_all E servers w)))
      else None)"
  by (simp add: startBatch_def split_beta)

lemma startBatch_returns:
  assumes "startBatch E servers w = Some (res, w')"
  shows "unhandled (snd (begin_all E servers w)) = []"
    and "(res, w') = finish_all E (schedule E (fst (begin_all E servers w)))
                       (\<lparr>success = [], errors = []\<rparr>, snd (begin_all E servers w))"
  using assms by (simp_all add: startBatch_unfold split: if_splits)

lemma startBatch_results:
  assumes "startBatch E servers w = Some (res, w')"
  shows "res =
     \<lparr>success = concat (map (\<lambda>t. success (pushed E t)) (schedule E (fst (begin_all E servers w)))),
      errors = concat (map (\<lambda>t. errors (pushed E t)) (schedule E (fst (begin_all E servers w))))\<rparr>"
proof -
  have "res = fst (finish_all E (schedule E (fst (begin_all E servers w)))
                       (\<lparr>success = [], errors = []\<rparr>, snd (begin_all E servers w)))"
    using startBatch_returns(2) [OF assms] by (metis fst_conv)
  then show ?thesis by (simp add: finish_all_results)
qed

lemma batch_tasks:
  assumes "distinct (map fst servers)"
  shows "fst (begin_all E servers w) = map (\<lambda>p. fst (start_one_begin E p w)) servers"
  using assms by (rule begin_all_tasks) simp_all

lemma batch_task_unique:
  assumes "distinct (map fst servers)" and "(i, cfg) \<in> set servers"
    and "t' \<in> set (fst (begin_all E servers w))" and "task_id t' = Some i"
  shows "t' = fst (start_one_begin E (i, cfg) w)"
proof -
  from assms(3) obtain p where p: "p \<in> set servers" "t' = fst (start_one_begin E p w)"
    unfolding batch_tasks [OF assms(1)] by auto
  with assms(4) have "fst p = i"
    using start_one_begin_task(2) by metis
  with p(1) have "(i, snd p) \<in> set servers" by (metis prod.collapse)
  with assms(1,2) have "snd p = cfg"
    by (metis eq_key_imp_eq_value)
  with \<open>fst p = i\<close> p(2) show ?thesis by (metis prod.collapse)
qed

lemma batch_task_member:
  assumes "distinct (map fst servers)" and "(i, cfg) \<in> set servers"
  shows "fst (start_one_begin E (i, cfg) w) \<in> set (fst (begin_all E servers w))"
  unfolding batch_tasks [OF assms(1)] using assms(2) by force

lemma batch_tasks_wf: "distinct (map fst servers) \<Longrightarrow> \<forall>t\<in>set (fst (begin_all E servers w)). wf_task t"
  by (simp add: batch_tasks start_one_begin_task(1))

text \<open>What a batch that returns holds for one of its ids, in terms of the task of this id.\<close>

lemma batch_results_of_id:
  assumes "distinct (map fst servers)" and "(i, cfg) \<in> set servers"
    and "startBatch E servers w = Some (res, w')"
  shows "{r \<in> set (success res). started_id r = i}
           = set (success (pushed E (fst (start_one_begin E (i, cfg) w))))"
    and "{f \<in> set (errors res). failure_id f = i}
           = set (errors (pushed E (fst (start_one_begin E (i, cfg) w))))"
    and "clients w' i =
           (if task_id (fst (start_one_begin E (i, cfg) w)) = Some i
               \<and> stored E (fst (start_one_begin E (i, cfg) w)) \<noteq> None
            then stored E (fst (start_one_begin E (i, cfg) w)) else clients w i)"
proof -
  let ?ts = "fst (begin_all E servers w)"
  let ?t = "fst (start_one_begin E (i, cfg) w)"
  note res = startBatch_results [OF assms(3)]
  have mem: "?t \<in> set ?ts" by (rule batch_task_member [OF assms(1,2)])
  have uniq: "t' = ?t" if "t' \<in> set ?ts" "task_id t' = Some i" for t'
    using batch_task_unique [OF assms(1,2) that] .
  have wf: "\<forall>t\<in>set ?ts. wf_task t" by (rule batch_tasks_wf [OF assms(1)])
  have tid: "task_id ?t = Some j \<Longrightarrow> j = i" for j
    using start_one_begin_task(2) [of E "(i, cfg)" w j] by simp
  show "{r \<in> set (success res). started_id r = i} = set (success (pushed E ?t))"
  proof (intro set_eqI iffI)
    fix r
    assume "r \<in> {r \<in> set (success res). started_id r = i}"
    then obtain t' where t': "t' \<in> set ?ts" "r \<in> set (success (pushed E t'))" and r: "started_id r = i"
      unfolding res by (auto simp: set_schedule)
    from t' wf have "task_id t' = Some (started_id r)" by (metis pushed_ids(1))
    with r t'(1) have "t' = ?t" by (simp add: uniq)
    with t'(2) show "r \<in> set (success (pushed E ?t))" by simp
  next
    fix r
    assume r: "r \<in> set (success (pushed E ?t))"
    with wf mem have "task_id ?t = Some (started_id r)" by (metis pushed_ids(1))
    then have "started_id r = i" by (rule tid)
    with r mem show "r \<in> {r \<in> set (success res). started_id r = i}"
      unfolding res by (auto simp: set_schedule)
  qed
  show "{f \<in> set (errors res). failure_id f = i} = set (errors (pushed E ?t))"
  proof (intro set_eqI iffI)
    fix f
    assume "f \<in> {f \<in> set (errors res). failure_id f = i}"
    then obtain t' where t': "t' \<in> set ?ts" "f \<in> set (errors (pushed E t'))" and f: "failure_id f = i"
      unfolding res by (auto simp: set_schedule)
    from t' wf have "task_id t' = Some (failure_id f)" by (metis pushed_ids(2))
    with f t'(1) have "t' = ?t" by (simp add: uniq)
    with t'(2) show "f \<in> set (errors (pushed E ?t))" by simp
  next
    fix f
    assume f: "f \<in> set (errors (pushed E ?t))"
    with wf mem have "task_id ?t = Some (failure_id f)" by (metis pushed_ids(2))
    then have "failure_id f = i" by (rule tid)
    with f mem show "f \<in> {f \<in> set (errors res). failure_id f = i}"
      unfolding res by (auto simp: set_schedule)
  qed
  have "w' = snd (finish_all E (schedule E ?ts) (\<lparr>success = [], errors = []\<rparr>, snd (begin_all E servers w)))"
    using startBatch_returns(2) [OF assms(3)] by (metis snd_conv)
  moreover have "clients (snd (finish_all E (schedule E ?ts) (\<lparr>success = [], errors = []\<rparr>, snd (begin_all E servers w)))) i =
      (if ?t \<in> set (schedule E ?ts) \<and> task_id ?t = Some i \<and> stored E ?t \<noteq> None
       then stored E ?t else clients (snd (begin_all E servers w)) i)"
    by (rule finish_all_clients) (use wf uniq in \<open>simp_all add: set_schedule\<close>)
  ultimately show "clients w' i =
      (if task_id ?t = Some i \<and> stored E ?t \<noteq> None then stored E ?t else clients w i)"
    using mem by (auto simp: set_schedule begin_all_clients)
qed

lemma solo_results:
  assumes "start_one E (i, cfg) (\<lparr>success = [], errors = []\<rparr>, w) = Some (res1, w1)"
  shows "res1 = \<lparr>success = success (pushed E (fst (start_one_begin E (i, cfg) w))),
                 errors = errors (pushed E (fst (start_one_begin E (i, cfg) w)))\<rparr>"
    and "clients w1 i =
     (if task_id (fst (start_one_begin E (i, cfg) w)) = Some i \<and> stored E (fst (start_one_begin E (i, cfg) w)) \<noteq> None
      then stored E (fst (start_one_begin E (i, cfg) w)) else clients w i)"
proof -
  let ?b = "start_one_begin E (i, cfg) w"
  from assms have run: "(res1, w1) = start_one_finish E (fst ?b) (\<lparr>success = [], errors = []\<rparr>, snd ?b)"
    by (simp add: start_one_def split_beta split: if_splits)
  have "res1 = fst (start_one_finish E (fst ?b) (\<lparr>success = [], errors = []\<rparr>, snd ?b))"
    using run by (metis fst_conv)
  then show "res1 = \<lparr>success = success (pushed E (fst ?b)), errors = errors (pushed E (fst ?b))\<rparr>"
    by (simp add: start_one_finish_results)
  have "w1 = snd (start_one_finish E (fst ?b) (\<lparr>success = [], errors = []\<rparr>, snd ?b))"
    using run by (metis snd_conv)
  then show "clients w1 i =
     (if task_id (fst ?b) = Some i \<and> stored E (fst ?b) \<noteq> None then stored E (fst ?b) else clients w i)"
    by (auto simp: start_one_finish_clients [OF start_one_begin_task(1)] start_one_begin_world(1))
qed

subsection \<open>Unhandled rejections in a batch\<close>

lemma start_one_begin_unhandled_cong:
  assumes "clients w1 (fst p) = clients w2 (fst p)" and "unhandled w1 = unhandled w2"
  shows "unhandled (snd (start_one_begin E p w1)) = unhandled (snd (start_one_begin E p w2))"
  using assms
  by (simp add: start_one_begin_def Let_def split_beta startClient_begin_unhandled split: option.splits)

lemma begin_all_unhandled: "\<exists>ms. unhandled (snd (begin_all E ps w)) = unhandled w @ ms"
proof (induction ps arbitrary: w)
  case Nil
  show ?case by simp
next
  case (Cons p ps)
  obtain m1 where m1: "unhandled (snd (start_one_begin E p w)) = unhandled w @ m1"
    using start_one_begin_unhandled by blast
  obtain m2 where "unhandled (snd (begin_all E ps (snd (start_one_begin E p w))))
      = unhandled (snd (start_one_begin E p w)) @ m2"
    using Cons.IH by blast
  with m1 show ?case by (simp add: split_beta)
qed

lemma begin_all_quiet:
  assumes "unhandled (snd (begin_all E ps w)) = []" and "p \<in> set ps"
  shows "unhandled (snd (start_one_begin E p w)) = []"
  using assms
proof (induction ps arbitrary: w)
  case Nil
  then show ?case by simp
next
  case (Cons q ps)
  let ?w1 = "snd (start_one_begin E q w)"
  have rest: "unhandled (snd (begin_all E ps ?w1)) = []"
    using Cons.prems(1) by (simp add: split_beta)
  then have q1: "unhandled ?w1 = []"
    using begin_all_unhandled [of E ps ?w1] by auto
  then have q0: "unhandled w = []"
    using start_one_begin_unhandled [of E q w] by auto
  show ?case
  proof (cases "p = q")
    case True
    with q1 show ?thesis by simp
  next
    case False
    with Cons.prems(2) have "p \<in> set ps" by simp
    with rest have "unhandled (snd (start_one_begin E p ?w1)) = []"
      by (rule Cons.IH)
    moreover have "unhandled (snd (start_one_begin E p ?w1)) = unhandled (snd (start_one_begin E p w))"
      by (rule start_one_begin_unhandled_cong) (simp_all add: start_one_begin_world(1) q1 q0)
    ultimately show ?thesis by simp
  qed
qed

lemma begin_all_rejected:
  assumes "(j, cfg) \<in> set ps" and "clients w j = Some e" and "hasConfigChanged (config e) cfg"
    and "close E (client e) = CloseRejects m"
  shows "unhandled (snd (begin_all E ps w)) \<noteq> []"
proof
  assume "unhandled (snd (begin_all E ps w)) = []"
  then have "unhandled (snd (start_one_begin E (j, cfg) w)) = []"
    using assms(1) by (rule begin_all_quiet)
  moreover have "unhandled (snd (start_one_begin E (j, cfg) w)) = unhandled w @ [m]"
    using assms(2-4)
    by (simp add: start_one_begin_def Let_def split_beta startClient_begin_unhandled dropped_def)
  ultimately show False by simp
qed

text \<open>
  When the batch returns, every id fares as if it had been started alone from the same
  registry: its entries in the two lists and its entry in the registry are those of the
  solo run, which returns as well.
\<close>

lemma batch_isolation:
  assumes "distinct (map fst servers)" and "(i, cfg) \<in> set servers"
    and "startBatch E servers w = Some (res, w')"
  shows "\<exists>res1 w1. start_one E (i, cfg) (\<lparr>success = [], errors = []\<rparr>, w) = Some (res1, w1)
           \<and> {r \<in> set (success res). started_id r = i} = set (success res1)
           \<and> {f \<in> set (errors res). failure_id f = i} = set (errors res1)
           \<and> clients w' i = clients w1 i"
proof -
  have "unhandled (snd (start_one_begin E (i, cfg) w)) = []"
    using startBatch_returns(1) [OF assms(3)] assms(2) by (rule begin_all_quiet)
  then obtain res1 w1 where solo: "start_one E (i, cfg) (\<lparr>success = [], errors = []\<rparr>, w) = Some (res1, w1)"
    by (simp add: start_one_def split_beta) (metis prod.collapse)
  note b = batch_results_of_id [OF assms]
  note s = solo_results [OF solo]
  have "{r \<in> set (success res). started_id r = i} = set (success res1)"
    unfolding b(1) s(1) by simp
  moreover have "{f \<in> set (errors res). failure_id f = i} = set (errors res1)"
    unfolding b(2) s(1) by simp
  moreover have "clients w' i = clients w1 i"
    unfolding b(3) s(2) by simp
  ultimately show ?thesis using solo by blast
qed

subsection \<open>What a batch that returns collects\<close>

lemma start_one_collects:
  assumes "start_one E (i, cfg) (\<lparr>success = [], errors = []\<rparr>, w) = Some (res1, w1)"
    and "\<forall>e. clients w i = Some e \<longrightarrow> hasConfigChanged (config e) cfg"
  shows "command cfg = None \<or> command cfg = Some [] \<Longrightarrow>
           res1 = \<lparr>success = [], errors = [\<lparr>failure_id = i,
                    failure_error = ''Failed to initialize: Command is required''\<rparr>]\<rparr>
           \<and> clients w1 = clients w"
    and "command cfg = Some cmd \<Longrightarrow> cmd \<noteq> [] \<Longrightarrow> race E (i, created w i) i cmd
             (case args cfg of None \<Rightarrow> [] | Some a \<Rightarrow> a) = Failed d (Error m) \<Longrightarrow>
           res1 = \<lparr>success = [], errors = [\<lparr>failure_id = i,
                    failure_error = ''Failed to initialize: '' @ m\<rparr>]\<rparr>
           \<and> clients w1 = clients w"
    and "command cfg = Some cmd \<Longrightarrow> cmd \<noteq> [] \<Longrightarrow> race E (i, created w i) i cmd
             (case args cfg of None \<Rightarrow> [] | Some a \<Rightarrow> a) = Connected d \<Longrightarrow>
           res1 = \<lparr>success = [\<lparr>started_id = i, started_message = ''MCP client started successfully''\<rparr>],
                   errors = []\<rparr>
           \<and> (\<exists>en. clients w1 i = Some en \<and> config en = cfg \<and> client en = (i, created w i))"
proof -
  show "res1 = \<lparr>success = [], errors = [\<lparr>failure_id = i,
                    failure_error = ''Failed to initialize: Command is required''\<rparr>]\<rparr>
           \<and> clients w1 = clients w"
    if "command cfg = None \<or> command cfg = Some []"
    using assms that
    by (auto simp: start_one_def start_one_begin_def startClient_begin_def Let_def split_beta
        split: option.splits if_splits)
  show "res1 = \<lparr>success = [], errors = [\<lparr>failure_id = i,
                    failure_error = ''Failed to initialize: '' @ m\<rparr>]\<rparr>
           \<and> clients w1 = clients w"
    if "command cfg = Some cmd" "cmd \<noteq> []" "race E (i, created w i) i cmd
             (case args cfg of None \<Rightarrow> [] | Some a \<Rightarrow> a) = Failed d (Error m)"
    using assms that
    by (auto simp: start_one_def start_one_begin_def startClient_begin_def Let_def split_beta
        split: option.splits if_splits)
  show "res1 = \<lparr>success = [\<lparr>started_id = i, started_message = ''MCP client started successfully''\<rparr>],
                   errors = []\<rparr>
           \<and> (\<exists>en. clients w1 i = Some en \<and> config en = cfg \<and> client en = (i, created w i))"
    if "command cfg = Some cmd" "cmd \<noteq> []" "race E (i, created w i) i cmd
             (case args cfg of None \<Rightarrow> [] | Some a \<Rightarrow> a) = Connected d"
    using assms that
    by (auto simp: start_one_def start_one_begin_def startClient_begin_def Let_def split_beta
        split: option.splits if_splits)
qed

text \<open>
  In a batch that returns, an id that is started (it has no entry, or one with another
  configuration) has exactly one entry in the two lists: without a command, or when the
  race of its connect fails, the entry \<open>{id, error}\<close> is in \<open>errors\<close>, with the message
  of the error after \<open>Failed to initialize: \<close>, and the registry holds for this id what
  it held; when the race is won by the connect the entry is in \<open>success\<close> and the registry
  holds the new entry.
\<close>

lemma batch_collects:
  assumes "distinct (map fst servers)" and "(i, cfg) \<in> set servers"
    and "startBatch E servers w = Some (res, w')"
    and "\<forall>e. clients w i = Some e \<longrightarrow> hasConfigChanged (config e) cfg"
  shows "command cfg = None \<or> command cfg = Some [] \<Longrightarrow>
           {f \<in> set (errors res). failure_id f = i}
             = {\<lparr>failure_id = i, failure_error = ''Failed to initialize: Command is required''\<rparr>}
           \<and> {r \<in> set (success res). started_id r = i} = {}
           \<and> clients w' i = clients w i"
    and "command cfg = Some cmd \<Longrightarrow> cmd \<noteq> [] \<Longrightarrow> race E (i, created w i) i cmd
             (case args cfg of None \<Rightarrow> [] | Some a \<Rightarrow> a) = Failed d (Error m) \<Longrightarrow>
           {f \<in> set (errors res). failure_id f = i}
             = {\<lparr>failure_id = i, failure_error = ''Failed to initialize: '' @ m\<rparr>}
           \<and> {r \<in> set (success res). started_id r = i} = {}
           \<and> clients w' i = clients w i"
    and "command cfg = Some cmd \<Longrightarrow> cmd \<noteq> [] \<Longrightarrow> race E (i, created w i) i cmd
             (case args cfg of None \<Rightarrow> [] | Some a \<Rightarrow> a) = Connected d \<Longrightarrow>
           {r \<in> set (success res). started_id r = i}
             = {\<lparr>started_id = i, started_message = ''MCP client started successfully''\<rparr>}
           \<and> {f \<in> set (errors res). failure_id f = i} = {}
           \<and> (\<exists>en. clients w' i = Some en \<and> config en = cfg \<and> client en = (i, created w i))"
proof -
  from batch_isolation [OF assms(1-3)] obtain res1 w1 where
    solo: "start_one E (i, cfg) (\<lparr>success = [], errors = []\<rparr>, w) = Some (res1, w1)"
    and s: "{r \<in> set (success res). started_id r = i} = set (success res1)"
    and f: "{f \<in> set (errors res). failure_id f = i} = set (errors res1)"
    and c: "clients w' i = clients w1 i"
    by blast
  note one = start_one_collects [OF solo assms(4)]
  show "{f \<in> set (errors res). failure_id f = i}
             = {\<lparr>failure_id = i, failure_error = ''Failed to initialize: Command is required''\<rparr>}
           \<and> {r \<in> set (success res). started_id r = i} = {}
           \<and> clients w' i = clients w i"
    if "command cfg = None \<or> command cfg = Some []"
    unfolding s f c using one(1) [OF that] by simp
  show "{f \<in> set (errors res). failure_id f = i}
             = {\<lparr>failure_id = i, failure_error = ''Failed to initialize: '' @ m\<rparr>}
           \<and> {r \<in> set (success res). started_id r = i} = {}
           \<and> clients w' i = clients w i"
    if "command cfg = Some cmd" "cmd \<noteq> []" "race E (i, created w i) i cmd
             (case args cfg of None \<Rightarrow> [] | Some a \<Rightarrow> a) = Failed d (Error m)"
    unfolding s f c using one(2) [OF that] by simp
  show "{r \<in> set (success res). started_id r = i}
             = {\<lparr>started_id = i, started_message = ''MCP client started successfully''\<rparr>}
           \<and> {f \<in> set (errors res). failure_id f = i} = {}
           \<and> (\<exists>en. clients w' i = Some en \<and> config en = cfg \<and> client en = (i, created w i))"
    if "command cfg = Some cmd" "cmd \<noteq> []" "race E (i, created w i) i cmd
             (case args cfg of None \<Rightarrow> [] | Some a \<Rightarrow> a) = Connected d"
    unfolding s f c using one(3) [OF that] by simp
qed

text \<open>
  Claim C6 says that one id's failure never aborts another id's success. Every callback
  has its own \<open>try\<close> and \<open>catch\<close> and collects its failure, and a batch that returns
  treats every id as if it were alone (\<open>batch_isolation\<close>, \<open>batch_collects\<close>). But the dropped promise of
  \<open>close\<close> is outside of that: when one id of the batch has an entry with another
  configuration and the \<open>close\<close> of its old client is rejected, the process ends and the
  whole batch is lost, whatever the other ids are and however their starts would have gone.
  No response is sent: neither list reaches the caller.
\<close>

theorem batch_aborted_by_rejected_close:
  assumes "(j, cfgj) \<in> set servers" and "clients w j = Some e"
    and "wf_config (config e)" and "wf_config cfgj" and "\<not> same_config (config e) cfgj"
    and "close E (client e) = CloseRejects m"
  shows "startBatch E servers w = None \<and> post_start E (Some servers) w = None"
proof -
  have changed: "hasConfigChanged (config e) cfgj"
    using hasConfigChanged_iff [OF assms(3,4)] assms(5) by simp
  have "unhandled (snd (begin_all E servers w)) \<noteq> []"
    by (rule begin_all_rejected [OF assms(1,2) changed assms(6)])
  then have "startBatch E servers w = None"
    by (simp add: startBatch_unfold)
  then show ?thesis by (simp add: post_start_def)
qed

theorem batch_aborted_by_rejected_close_witness:
  "(''stuck'', demo_config\<lparr>args := Some [''srv'', ''-y'']\<rparr>)
      \<in> set [(''b'', demo_config), (''stuck'', demo_config\<lparr>args := Some [''srv'', ''-y'']\<rparr>)]
   \<and> clients (demo_running ''stuck'' demo_config) ''stuck'' = Some (demo_entry ''stuck'' demo_config)
   \<and> wf_config (config (demo_entry ''stuck'' demo_config))
   \<and> wf_config (demo_config\<lparr>args := Some [''srv'', ''-y'']\<rparr>)
   \<and> \<not> same_config (config (demo_entry ''stuck'' demo_config)) (demo_config\<lparr>args := Some [''srv'', ''-y'']\<rparr>)
   \<and> close demo_env (client (demo_entry ''stuck'' demo_config)) = CloseRejects ''close failed''
   \<and> post_start demo_env
        (Some [(''b'', demo_config), (''stuck'', demo_config\<lparr>args := Some [''srv'', ''-y'']\<rparr>)])
        (demo_running ''stuck'' demo_config) = None
   \<and> map_option fst (post_start demo_env (Some [(''b'', demo_config)]) (demo_running ''stuck'' demo_config))
       = Some (201, AllStarted [\<lparr>started_id = ''b'', started_message = ''MCP client started successfully''\<rparr>])
   \<and> map_option fst (start_one demo_env (''b'', demo_config) (\<lparr>success = [], errors = []\<rparr>, demo_running ''stuck'' demo_config))
       = Some \<lparr>success = [\<lparr>started_id = ''b'', started_message = ''MCP client started successfully''\<rparr>], errors = []\<rparr>"
proof -
  let ?w = "demo_running ''stuck'' demo_config"
  let ?e = "demo_entry ''stuck'' demo_config"
  let ?c = "demo_config\<lparr>args := Some [''srv'', ''-y'']\<rparr>"
  have m: "(''stuck'', ?c) \<in> set [(''b'', demo_config), (''stuck'', ?c)]"
    by simp
  have en: "clients ?w ''stuck'' = Some ?e"
    by (simp add: demo_running_def)
  have wf: "wf_config (config ?e)" "wf_config ?c"
    by (simp_all add: wf_config_def demo_entry_def demo_config_def)
  have differ: "\<not> same_config (config ?e) ?c"
    by (simp add: same_config_def demo_entry_def demo_config_def)
  have cl: "close demo_env (client ?e) = CloseRejects ''close failed''"
    by (simp add: demo_env_def demo_entry_def)
  note main = batch_aborted_by_rejected_close [OF m en wf differ cl]
  have absent: "clients ?w ''b'' = None"
    by (simp add: demo_running_def)
  have alone: "map_option fst (post_start demo_env (Some [(''b'', demo_config)]) ?w)
       = Some (201, AllStarted [\<lparr>started_id = ''b'', started_message = ''MCP client started successfully''\<rparr>])"
    by (simp add: post_start_def startBatch_def start_one_begin_def startClient_begin_def
        Let_def schedule_def finish_all_def race_def demo_env_def demo_config_def demo_running_def)
  have solo: "map_option fst (start_one demo_env (''b'', demo_config) (\<lparr>success = [], errors = []\<rparr>, ?w))
       = Some \<lparr>success = [\<lparr>started_id = ''b'', started_message = ''MCP client started successfully''\<rparr>], errors = []\<rparr>"
    unfolding start_one_absent [OF absent]
    by (simp add: startClient_def startClient_begin_def race_def Let_def
        demo_env_def demo_config_def demo_running_def)
  show ?thesis
    using m en wf differ cl main alone solo by (simp only: simp_thms)
qed

subsection \<open>An unchanged entry in a batch\<close>

lemma begin_all_append:
  "begin_all E (xs @ ys) w =
     (fst (begin_all E xs w) @ fst (begin_all E ys (snd (begin_all E xs w))),
      snd (begin_all E ys (snd (begin_all E xs w))))"
  by (induction xs arbitrary: w) (simp_all add: split_beta)

lemma start_one_begin_unchanged:
  assumes "clients w i = Some e" and "\<not> hasConfigChanged (config e) cfg"
  shows "start_one_begin E (i, cfg) w = (Returned, w)"
  using assms by (simp add: start_one_begin_def)

lemma begin_all_skip:
  assumes "clients w i = Some e" and "\<not> hasConfigChanged (config e) cfg"
  shows "begin_all E (xs @ (i, cfg) # ys) w =
     (fst (begin_all E xs w) @ Returned # fst (begin_all E ys (snd (begin_all E xs w))),
      snd (begin_all E ys (snd (begin_all E xs w))))"
proof -
  have "clients (snd (begin_all E xs w)) i = Some e"
    using assms(1) by (simp add: begin_all_clients)
  then have "start_one_begin E (i, cfg) (snd (begin_all E xs w)) = (Returned, snd (begin_all E xs w))"
    using assms(2) by (rule start_one_begin_unchanged)
  then show ?thesis
    by (simp add: begin_all_append [of E xs "(i, cfg) # ys"] split_beta)
qed

lemma start_one_finish_Returned: "start_one_finish E Returned rw = rw"
  by (cases rw) simp

lemma finish_all_skip:
  "finish_all E (schedule E (ts1 @ Returned # ts2)) rw = finish_all E (schedule E (ts1 @ ts2)) rw"
  by (simp add: finish_all_def schedule_def start_one_finish_Returned)

lemma filter_other_ids:
  assumes "distinct (map fst (xs @ (i, cfg) # ys))"
  shows "filter (\<lambda>p. fst p \<noteq> i) (xs @ (i, cfg) # ys) = xs @ ys"
proof -
  have "\<forall>p\<in>set xs. fst p \<noteq> i" "\<forall>p\<in>set ys. fst p \<noteq> i"
    using assms by force+
  then show ?thesis by simp
qed

lemma post_start_skip:
  assumes "clients w i = Some e" and "\<not> hasConfigChanged (config e) cfg"
  shows "post_start E (Some (xs @ (i, cfg) # ys)) w = post_start E (Some (xs @ ys)) w"
proof -
  have "startBatch E (xs @ (i, cfg) # ys) w = startBatch E (xs @ ys) w"
    unfolding startBatch_unfold begin_all_skip [OF assms] begin_all_append [of E xs ys]
    by (simp add: finish_all_skip)
  then show ?thesis by (simp add: post_start_def)
qed

lemma post_start_returns:
  assumes "post_start E (Some servers) w = Some (resp, w')"
  shows "\<exists>res. startBatch E servers w = Some (res, w')
           \<and> body_success (snd resp) = success res \<and> body_errors (snd resp) = errors res"
proof (cases "startBatch E servers w")
  case None
  then show ?thesis using assms by (simp add: post_start_def)
next
  case (Some rw)
  obtain res w1 where rw: "rw = (res, w1)" by (cases rw)
  show ?thesis
  proof (cases "errors res = []")
    case True
    then have "resp = (201, AllStarted (success res))" "w' = w1"
      using assms Some rw by (simp_all add: post_start_def)
    then show ?thesis using Some rw True by simp
  next
    case False
    then have "resp = (400, SomeFailed (success res) (errors res))" "w' = w1"
      using assms Some rw by (simp_all add: post_start_def)
    then show ?thesis using Some rw by simp
  qed
qed

text \<open>
  Claim C10. An id of the batch whose submitted configuration is structurally the same as
  the one of its entry appears in neither list of the response. More than that: what the
  handler does, response and world, is what it does for the same batch without this id,
  so the caller cannot tell the two apart.
\<close>

theorem unchanged_entry_omitted:
  assumes "distinct (map fst servers)" and "(i, cfg) \<in> set servers"
    and "clients w i = Some e" and "wf_config (config e)" and "wf_config cfg"
    and "same_config (config e) cfg"
  shows "(\<forall>resp w'. post_start E (Some servers) w = Some (resp, w') \<longrightarrow>
            i \<notin> started_id ` set (body_success (snd resp))
            \<and> i \<notin> failure_id ` set (body_errors (snd resp)))
       \<and> post_start E (Some servers) w = post_start E (Some (filter (\<lambda>p. fst p \<noteq> i) servers)) w"
proof -
  have same: "\<not> hasConfigChanged (config e) cfg"
    using hasConfigChanged_iff [OF assms(4,5)] assms(6) by simp
  have task: "fst (start_one_begin E (i, cfg) w) = Returned"
    by (simp add: start_one_begin_unchanged [OF assms(3) same])
  have absent: "i \<notin> started_id ` set (body_success (snd resp))
            \<and> i \<notin> failure_id ` set (body_errors (snd resp))"
    if "post_start E (Some servers) w = Some (resp, w')" for resp w'
  proof -
    from post_start_returns [OF that] obtain res where res: "startBatch E servers w = Some (res, w')"
      and body: "body_success (snd resp) = success res" "body_errors (snd resp) = errors res"
      by blast
    note b = batch_results_of_id [OF assms(1,2) res, unfolded task]
    have "{r \<in> set (success res). started_id r = i} = {}"
      unfolding b(1) by simp
    moreover have "{f \<in> set (errors res). failure_id f = i} = {}"
      unfolding b(2) by simp
    ultimately show ?thesis unfolding body by blast
  qed
  from assms(2) obtain xs ys where split: "servers = xs @ (i, cfg) # ys"
    by (meson split_list)
  have "filter (\<lambda>p. fst p \<noteq> i) servers = xs @ ys"
    unfolding split by (rule filter_other_ids) (use assms(1) split in simp)
  then have c: "post_start E (Some servers) w = post_start E (Some (filter (\<lambda>p. fst p \<noteq> i) servers)) w"
    using post_start_skip [OF assms(3) same, of E xs ys] split by simp
  show ?thesis using absent c by blast
qed

theorem unchanged_entry_omitted_witness:
  "distinct (map fst [(''a'', demo_config\<lparr>env := Some [(''A'', ''1''), (''B'', ''2'')]\<rparr>), (''b'', demo_config)])
   \<and> clients (demo_running ''a'' demo_config) ''a'' = Some (demo_entry ''a'' demo_config)
   \<and> wf_config (config (demo_entry ''a'' demo_config))
   \<and> wf_config (demo_config\<lparr>env := Some [(''A'', ''1''), (''B'', ''2'')]\<rparr>)
   \<and> same_config (config (demo_entry ''a'' demo_config)) (demo_config\<lparr>env := Some [(''A'', ''1''), (''B'', ''2'')]\<rparr>)
   \<and> post_start demo_env
        (Some [(''a'', demo_config\<lparr>env := Some [(''A'', ''1''), (''B'', ''2'')]\<rparr>), (''b'', demo_config)])
        (demo_running ''a'' demo_config)
       = post_start demo_env (Some [(''b'', demo_config)]) (demo_running ''a'' demo_config)
   \<and> map_option fst (post_start demo_env
        (Some [(''a'', demo_config\<lparr>env := Some [(''A'', ''1''), (''B'', ''2'')]\<rparr>), (''b'', demo_config)])
        (demo_running ''a'' demo_config))
       = Some (201, AllStarted [\<lparr>started_id = ''b'', started_message = ''MCP client started successfully''\<rparr>])
   \<and> ''a'' \<notin> started_id ` set (body_success
        (AllStarted [\<lparr>started_id = ''b'', started_message = ''MCP client started successfully''\<rparr>]))
   \<and> ''a'' \<notin> failure_id ` set (body_errors
        (AllStarted [\<lparr>started_id = ''b'', started_message = ''MCP client started successfully''\<rparr>]))"
proof -
  let ?c = "demo_config\<lparr>env := Some [(''A'', ''1''), (''B'', ''2'')]\<rparr>"
  let ?servers = "[(''a'', ?c), (''b'', demo_config)]"
  let ?w = "demo_running ''a'' demo_config"
  let ?body = "AllStarted [\<lparr>started_id = ''b'', started_message = ''MCP client started successfully''\<rparr>]"
  have d: "distinct (map fst ?servers)" by simp
  have m: "(''a'', ?c) \<in> set ?servers" by simp
  have en: "clients ?w ''a'' = Some (demo_entry ''a'' demo_config)"
    by (simp add: demo_running_def)
  have wf: "wf_config (config (demo_entry ''a'' demo_config))" "wf_config ?c"
    by (simp_all add: wf_config_def demo_entry_def demo_config_def)
  have same: "same_config (config (demo_entry ''a'' demo_config)) ?c"
    by (auto simp: same_config_def same_env_def demo_entry_def demo_config_def)
  note main = unchanged_entry_omitted [OF d m en wf same, of demo_env]
  have f: "filter (\<lambda>p. fst p \<noteq> ''a'') ?servers = [(''b'', demo_config)]" by simp
  have eq: "post_start demo_env (Some ?servers) ?w = post_start demo_env (Some [(''b'', demo_config)]) ?w"
    using main unfolding f by blast
  have r: "map_option fst (post_start demo_env (Some [(''b'', demo_config)]) ?w) = Some (201, ?body)"
    by (simp add: post_start_def startBatch_def start_one_begin_def startClient_begin_def
        Let_def schedule_def finish_all_def race_def demo_env_def demo_config_def demo_running_def)
  then obtain w' where "post_start demo_env (Some ?servers) ?w = Some ((201, ?body), w')"
    unfolding eq by (cases "post_start demo_env (Some [(''b'', demo_config)]) ?w") auto
  with main have "''a'' \<notin> started_id ` set (body_success (snd (201::nat, ?body)))
      \<and> ''a'' \<notin> failure_id ` set (body_errors (snd (201::nat, ?body)))"
    by blast
  then have out: "''a'' \<notin> started_id ` set (body_success ?body)" "''a'' \<notin> failure_id ` set (body_errors ?body)"
    by simp_all
  show ?thesis
    using d en wf same eq r out unfolding eq by (simp only: simp_thms)
qed

end
